theory Spec2Isabelle
  imports Main "HOL-Library.Word"
begin

unbundle bit_operations_syntax

text \<open>
  The converter of \<^verbatim>\<open>src/convert.py\<close> (the script whose entry point is \<^verbatim>\<open>rdf_to_json\<close>)
  turns a SKOS thesaurus, held in an rdflib graph, into a tree of categories and tags for
  \<^verbatim>\<open>json.dump\<close>. Its functions are embedded one by one, under their own names; what they
  take from libraries (\<^verbatim>\<open>uuid.uuid5\<close>, the graph queries of rdflib, the clock) is written
  out below, before them.
\<close>

section \<open>Identifiers: \<^verbatim>\<open>generate_id\<close>\<close>

text \<open>
  \<^verbatim>\<open>generate_id(uri) = str(uuid.uuid5(uuid.NAMESPACE_URL, uri))\<close>.
  The standard library's \<^verbatim>\<open>uuid5\<close> hashes the 16 bytes of the namespace followed by
  the UTF-8 bytes of the name with SHA-1, keeps the first 16 bytes of the digest as a
  128-bit integer, overwrites the variant and version bits and prints the integer as
  32 hexadecimal digits in five groups.

  A Python \<^verbatim>\<open>str\<close> is modelled by its UTF-8 byte sequence (a \<^typ>\<open>string\<close>, one
  \<^typ>\<open>char\<close> per byte), so \<^verbatim>\<open>bytes(name, "utf-8")\<close> reads the characters off as bytes.
  The source never indexes or measures a string, it only compares, copies and hashes them.
\<close>

type_synonym byte = "8 word"
type_synonym u32 = "32 word"

definition rotl :: "nat \<Rightarrow> u32 \<Rightarrow> u32" where
  "rotl n w = push_bit n w OR drop_bit (32 - n) w"

definition be32 :: "byte list \<Rightarrow> u32" where
  "be32 bs = foldl (\<lambda>acc b. push_bit 8 acc OR ucast b) 0 bs"

definition be128 :: "byte list \<Rightarrow> 128 word" where
  "be128 bs = foldl (\<lambda>acc b. push_bit 8 acc OR ucast b) 0 bs"

definition be_bytes :: "nat \<Rightarrow> 64 word \<Rightarrow> byte list" where
  "be_bytes k v = map (\<lambda>i. ucast (drop_bit (8 * (k - 1 - i)) v)) [0..<k]"

definition sha1_pad :: "byte list \<Rightarrow> byte list" where
  "sha1_pad m =
     m @ [0x80] @ replicate ((119 - length m mod 64) mod 64) 0
       @ be_bytes 8 (8 * of_nat (length m))"

fun chunks :: "nat \<Rightarrow> 'a list \<Rightarrow> 'a list list" where
  "chunks 0 xs = []"
| "chunks (Suc k) [] = []"
| "chunks (Suc k) (x # xs) = take (Suc k) (x # xs) # chunks (Suc k) (drop k xs)"

fun expand :: "nat \<Rightarrow> u32 list \<Rightarrow> u32 list" where
  "expand 0 w = w"
| "expand (Suc k) w =
     (let t = length w in
      expand k (w @ [rotl 1 (w ! (t - 3) XOR w ! (t - 8) XOR w ! (t - 14) XOR w ! (t - 16))]))"

definition sha1_f :: "nat \<Rightarrow> u32 \<Rightarrow> u32 \<Rightarrow> u32 \<Rightarrow> u32" where
  "sha1_f t b c d =
     (if t < 20 then (b AND c) OR (NOT b AND d)
      else if t < 40 then b XOR c XOR d
      else if t < 60 then (b AND c) OR (b AND d) OR (c AND d)
      else b XOR c XOR d)"

definition sha1_k :: "nat \<Rightarrow> u32" where
  "sha1_k t =
     (if t < 20 then 0x5A827999 else if t < 40 then 0x6ED9EBA1
      else if t < 60 then 0x8F1BBCDC else 0xCA62C1D6)"

type_synonym sha1_state = "u32 \<times> u32 \<times> u32 \<times> u32 \<times> u32"

fun sha1_round :: "sha1_state \<Rightarrow> nat \<times> u32 \<Rightarrow> sha1_state" where
  "sha1_round (a, b, c, d, e) (t, w) =
     (rotl 5 a + sha1_f t b c d + e + sha1_k t + w, a, rotl 30 b, c, d)"

fun sha1_block :: "sha1_state \<Rightarrow> byte list \<Rightarrow> sha1_state" where
  "sha1_block (h0, h1, h2, h3, h4) blk =
     (let w = expand 64 (map be32 (chunks 4 blk));
          (a, b, c, d, e) = foldl sha1_round (h0, h1, h2, h3, h4) (zip [0..<80] w)
      in (h0 + a, h1 + b, h2 + c, h3 + d, h4 + e))"

definition sha1 :: "byte list \<Rightarrow> byte list" where
  "sha1 m =
     (let (h0, h1, h2, h3, h4) =
            foldl sha1_block (0x67452301, 0xEFCDAB89, 0x98BADCFE, 0x10325476, 0xC3D2E1F0)
              (chunks 64 (sha1_pad m))
      in concat (map (\<lambda>h. be_bytes 4 (ucast h)) [h0, h1, h2, h3, h4]))"

definition NAMESPACE_URL :: "byte list" where
  "NAMESPACE_URL =
     [0x6b, 0xa7, 0xb8, 0x11, 0x9d, 0xad, 0x11, 0xd1,
      0x80, 0xb4, 0x00, 0xc0, 0x4f, 0xd4, 0x30, 0xc8]"

definition bytes_utf8 :: "string \<Rightarrow> byte list" where
  "bytes_utf8 s = map of_char s"

definition uuid5 :: "byte list \<Rightarrow> string \<Rightarrow> 128 word" where
  "uuid5 namespace name =
     (let hash = sha1 (namespace @ bytes_utf8 name);
          i = be128 (take 16 hash);
          i = i AND NOT (push_bit 48 0xc000);
          i = i OR push_bit 48 0x8000;
          i = i AND NOT (push_bit 64 0xf000);
          i = i OR push_bit 76 5
      in i)"

definition hex_digit :: "nat \<Rightarrow> char" where
  "hex_digit n = ''0123456789abcdef'' ! (n mod 16)"

definition uuid_str :: "128 word \<Rightarrow> string" where
  "uuid_str i =
     (let hex = map (\<lambda>k. hex_digit (unat (drop_bit (4 * (31 - k)) i AND 0xf))) [0..<32]
      in take 8 hex @ ''-'' @ take 4 (drop 8 hex) @ ''-'' @ take 4 (drop 12 hex) @ ''-''
         @ take 4 (drop 16 hex) @ ''-'' @ drop 20 hex)"

definition generate_id :: "string \<Rightarrow> string" where
  "generate_id uri = uuid_str (uuid5 NAMESPACE_URL uri)"

section \<open>The triple store\<close>

text \<open>
  An rdflib term is a URI reference, a blank node or a literal with an optional language
  tag and an optional datatype. \<^verbatim>\<open>str(t)\<close> is the URI, the blank node's label or the
  literal's lexical form. Only a literal has the attribute \<^verbatim>\<open>language\<close>.

  The graph is the list of its triples in the store's iteration order; the three query
  shapes the source uses are filters over that list.
\<close>

datatype rdf_term =
    URIRef string
  | BNode string
  | Literal string "string option" "string option"

fun py_str :: "rdf_term \<Rightarrow> string" where
  "py_str (URIRef u) = u"
| "py_str (BNode b) = b"
| "py_str (Literal v lang dt) = v"

fun is_literal :: "rdf_term \<Rightarrow> bool" where
  "is_literal (Literal v lang dt) = True"
| "is_literal t = False"

fun language :: "rdf_term \<Rightarrow> string option" where
  "language (Literal v lang dt) = lang"
| "language t = None"

type_synonym triple = "rdf_term \<times> rdf_term \<times> rdf_term"
type_synonym graph = "triple list"

definition DC :: string where "DC = ''http://purl.org/dc/elements/1.1/''"
definition DCT :: string where "DCT = ''http://purl.org/dc/terms/''"
definition SKOS :: string where "SKOS = ''http://www.w3.org/2004/02/skos/core#''"
definition RDF :: string where "RDF = ''http://www.w3.org/1999/02/22-rdf-syntax-ns#''"

definition DC_title :: rdf_term where "DC_title = URIRef (DC @ ''title'')"
definition DCT_created :: rdf_term where "DCT_created = URIRef (DCT @ ''created'')"
definition SKOS_narrower :: rdf_term where "SKOS_narrower = URIRef (SKOS @ ''narrower'')"
definition SKOS_prefLabel :: rdf_term where "SKOS_prefLabel = URIRef (SKOS @ ''prefLabel'')"
definition SKOS_ConceptScheme :: rdf_term where
  "SKOS_ConceptScheme = URIRef (SKOS @ ''ConceptScheme'')"
definition SKOS_hasTopConcept :: rdf_term where
  "SKOS_hasTopConcept = URIRef (SKOS @ ''hasTopConcept'')"
definition RDF_type :: rdf_term where "RDF_type = URIRef (RDF @ ''type'')"

definition objects :: "graph \<Rightarrow> rdf_term \<Rightarrow> rdf_term \<Rightarrow> rdf_term list" where
  "objects g s p = map (\<lambda>(s', p', ob). ob) (filter (\<lambda>(s', p', ob). s' = s \<and> p' = p) g)"

definition subjects :: "graph \<Rightarrow> rdf_term \<Rightarrow> rdf_term \<Rightarrow> rdf_term list" where
  "subjects g p ob = map (\<lambda>(s', p', ob'). s') (filter (\<lambda>(s', p', ob'). p' = p \<and> ob' = ob) g)"

definition graph_value :: "graph \<Rightarrow> rdf_term \<Rightarrow> rdf_term \<Rightarrow> rdf_term option" where
  "graph_value g s p = (case objects g s p of [] \<Rightarrow> None | v # rest \<Rightarrow> Some v)"

text \<open>\<^verbatim>\<open>str(x)\<close> of an optional term: \<^verbatim>\<open>str(None)\<close> is the four letters \<^verbatim>\<open>None\<close>.\<close>

definition str_opt :: "rdf_term option \<Rightarrow> string" where
  "str_opt v = (case v of None \<Rightarrow> ''None'' | Some t \<Rightarrow> py_str t)"

section \<open>Errors, the clock and the output values\<close>

datatype error = IndexError | AttributeError | RecursionError

text \<open>
  The output is what \<^verbatim>\<open>json.dump\<close> receives: dictionaries (in insertion order), lists,
  strings, integers, booleans and \<^verbatim>\<open>None\<close>.
\<close>

datatype json =
    JNull
  | JBool bool
  | JInt int
  | JStr string
  | JList "json list"
  | JDict "(string \<times> json) list"

fun jget :: "json \<Rightarrow> string \<Rightarrow> json option" where
  "jget (JDict kvs) k = map_of kvs k"
| "jget j k = None"

definition jopt :: "string option \<Rightarrow> json" where
  "jopt v = (case v of None \<Rightarrow> JNull | Some s \<Rightarrow> JStr s)"

text \<open>
  \<^verbatim>\<open>int(time.time() * 1000)\<close> reads the wall clock. The clock is a function from the
  number of readings made so far to the millisecond value read; every function that reads
  it takes that number and returns it incremented.
\<close>

type_synonym clock = "nat \<Rightarrow> int"

section \<open>\<^verbatim>\<open>convert.py\<close>\<close>

definition has_children :: "graph \<Rightarrow> rdf_term \<Rightarrow> bool" where
  "has_children g subject = (length (objects g subject SKOS_narrower) > 0)"

text \<open>The loop of \<^verbatim>\<open>get_pref_label_fr\<close>: \<^verbatim>\<open>label.language\<close> raises on a term that is no literal.\<close>

fun first_fr :: "rdf_term list \<Rightarrow> error + string option" where
  "first_fr [] = Inr None"
| "first_fr (label # rest) =
     (if is_literal label
      then (if language label = Some ''fr-fr'' then Inr (Some (py_str label)) else first_fr rest)
      else Inl AttributeError)"

definition get_pref_label_fr :: "graph \<Rightarrow> rdf_term \<Rightarrow> error + string" where
  "get_pref_label_fr g concept =
     (case first_fr (objects g concept SKOS_prefLabel) of
        Inl e \<Rightarrow> Inl e
      | Inr (Some label) \<Rightarrow> Inr label
      | Inr None \<Rightarrow> Inr (str_opt (graph_value g concept SKOS_prefLabel)))"

definition get_creation_date :: "graph \<Rightarrow> rdf_term \<Rightarrow> string option" where
  "get_creation_date g concept =
     (case objects g concept DCT_created of
        [] \<Rightarrow> None
      | creation_date # rest \<Rightarrow> Some (py_str creation_date))"

definition create_tag :: "clock \<Rightarrow> string \<Rightarrow> string \<Rightarrow> string option \<Rightarrow> nat \<Rightarrow> json \<times> nat" where
  "create_tag clk uri name creation_date t =
     (JDict [(''type'', JStr ''tag''),
             (''id'', JStr uri),
             (''name'', JStr name),
             (''creationDate'', jopt creation_date),
             (''creationTimestamp'', JInt (clk t))],
      Suc t)"

text \<open>
  \<^verbatim>\<open>concept_to_json\<close> calls itself once per level of the narrower relation. The first
  argument after the clock is the number of nested calls the interpreter still allows;
  at zero the call raises \<^verbatim>\<open>RecursionError\<close>. \<open>narrower_loop\<close> is the \<^verbatim>\<open>for child in ...\<close>
  loop of its body, with the list \<^verbatim>\<open>children\<close> built so far.
\<close>

fun concept_to_json :: "clock \<Rightarrow> nat \<Rightarrow> graph \<Rightarrow> rdf_term \<Rightarrow> nat \<Rightarrow> error + json \<times> nat"
  and narrower_loop ::
    "clock \<Rightarrow> nat \<Rightarrow> graph \<Rightarrow> rdf_term list \<Rightarrow> json list \<Rightarrow> nat \<Rightarrow> error + json list \<times> nat"
where
  "concept_to_json clk 0 g concept t = Inl RecursionError"
| "concept_to_json clk (Suc limit) g concept t =
     (let uri = py_str concept;
          obj_id = generate_id uri;
          creation_date = get_creation_date g concept
      in case get_pref_label_fr g concept of
           Inl e \<Rightarrow> Inl e
         | Inr name \<Rightarrow>
             if has_children g concept
             then (case narrower_loop clk limit g (objects g concept SKOS_narrower) [] t of
                     Inl e \<Rightarrow> Inl e
                   | Inr (children, t') \<Rightarrow>
                       Inr (JDict [(''type'', JStr ''category''),
                                   (''id'', JStr obj_id),
                                   (''name'', JStr name),
                                   (''children'', JList children),
                                   (''creationDate'', jopt creation_date),
                                   (''creationTimestamp'', JInt (clk t')),
                                   (''showChildren'', JBool True)],
                            Suc t'))
             else Inr (create_tag clk uri name creation_date t))"
| "narrower_loop clk limit g [] children t = Inr (children, t)"
| "narrower_loop clk limit g (child # rest) children t =
     (case concept_to_json clk limit g child t of
        Inl e \<Rightarrow> Inl e
      | Inr (child_obj, t1) \<Rightarrow>
          if jget child_obj ''type'' = Some (JStr ''category'')
          then (case get_pref_label_fr g child of
                  Inl e \<Rightarrow> Inl e
                | Inr name \<Rightarrow>
                    (let (child_tag, t2) =
                           create_tag clk (py_str child) name (get_creation_date g child) t1
                     in narrower_loop clk limit g rest (children @ [child_obj, child_tag]) t2))
          else narrower_loop clk limit g rest (children @ [child_obj]) t1)"

text \<open>The \<^verbatim>\<open>for concept in ...\<close> loop of \<^verbatim>\<open>rdf_to_json\<close>, over the top concepts.\<close>

fun top_concept_loop ::
  "clock \<Rightarrow> nat \<Rightarrow> graph \<Rightarrow> rdf_term list \<Rightarrow> json list \<Rightarrow> nat \<Rightarrow> error + json list \<times> nat"
where
  "top_concept_loop clk limit g [] children t = Inr (children, t)"
| "top_concept_loop clk limit g (concept # rest) children t =
     (case concept_to_json clk limit g concept t of
        Inl e \<Rightarrow> Inl e
      | Inr (concept_obj, t1) \<Rightarrow>
          if jget concept_obj ''type'' = Some (JStr ''category'')
          then (case get_pref_label_fr g concept of
                  Inl e \<Rightarrow> Inl e
                | Inr name \<Rightarrow>
                    (let (concept_tag, t2) =
                           create_tag clk (py_str concept) name (get_creation_date g concept) t1
                     in top_concept_loop clk limit g rest (children @ [concept_obj, concept_tag]) t2))
          else top_concept_loop clk limit g rest (children @ [concept_obj]) t1)"

text \<open>
  \<^verbatim>\<open>rdf_to_json\<close> from the parsed graph on (the parser is rdflib's). \<^verbatim>\<open>list(...)[0]\<close>
  raises \<^verbatim>\<open>IndexError\<close> on the empty list.
\<close>

definition rdf_to_json :: "clock \<Rightarrow> nat \<Rightarrow> graph \<Rightarrow> nat \<Rightarrow> error + json \<times> nat" where
  "rdf_to_json clk limit g t =
     (case subjects g RDF_type SKOS_ConceptScheme of
        [] \<Rightarrow> Inl IndexError
      | concept_scheme # others \<Rightarrow>
          (let scheme_name = str_opt (graph_value g concept_scheme DC_title)
           in case top_concept_loop clk limit g
                     (objects g concept_scheme SKOS_hasTopConcept) [] t of
                Inl e \<Rightarrow> Inl e
              | Inr (children, t') \<Rightarrow>
                  Inr (JList [JDict [(''type'', JStr ''category''),
                                     (''id'', JStr (py_str concept_scheme)),
                                     (''name'', JStr scheme_name),
                                     (''children'', JList children),
                                     (''creationDate'', jopt (get_creation_date g concept_scheme)),
                                     (''creationTimestamp'', JInt (clk t')),
                                     (''showChildren'', JBool True)]],
                       Suc t')))"

text \<open>
  \<^verbatim>\<open>main\<close>: the conversion runs first; the output file is opened and written only when
  it has returned. Any exception is caught, reported on standard output and turned into
  exit status 1.
\<close>

datatype printed = Conversion_complete string | Error_during_conversion error

record world =
  files :: "string \<rightharpoonup> json"
  stdout :: "printed list"
  exit_status :: "nat option"

definition main :: "clock \<Rightarrow> nat \<Rightarrow> graph \<Rightarrow> string \<Rightarrow> world \<Rightarrow> world" where
  "main clk limit g output w =
     (case rdf_to_json clk limit g 0 of
        Inr (json_data, t) \<Rightarrow>
          w\<lparr>files := (files w)(output \<mapsto> json_data),
            stdout := stdout w @ [Conversion_complete output]\<rparr>
      | Inl e \<Rightarrow>
          w\<lparr>stdout := stdout w @ [Error_during_conversion e],
            exit_status := Some 1\<rparr>)"





section \<open>Notions used to state the properties\<close>

subsection \<open>Output trees\<close>

definition is_category :: "json \<Rightarrow> bool" where
  "is_category n = (jget n ''type'' = Some (JStr ''category''))"

definition is_tag :: "json \<Rightarrow> bool" where
  "is_tag n = (jget n ''type'' = Some (JStr ''tag''))"

definition children_of :: "json \<Rightarrow> json list" where
  "children_of n = (case jget n ''children'' of Some (JList ks) \<Rightarrow> ks | _ \<Rightarrow> [])"

text \<open>The nodes strictly below a node: its children, their children, and so on.\<close>

inductive_set below :: "json \<Rightarrow> json set" for n :: json where
  child: "k \<in> set (children_of n) \<Longrightarrow> k \<in> below n"
| deeper: "m \<in> below n \<Longrightarrow> k \<in> set (children_of m) \<Longrightarrow> k \<in> below n"

text \<open>
  \<open>tag_copy_of k d\<close>: \<open>d\<close> is the tag the loops append after a category \<open>k\<close>. It has
  \<open>k\<close>'s name and creation date and neither \<^verbatim>\<open>children\<close> nor \<^verbatim>\<open>showChildren\<close>; its id is
  the string whose \<open>generate_id\<close> is \<open>k\<close>'s id.
\<close>

definition tag_copy_of :: "json \<Rightarrow> json \<Rightarrow> bool" where
  "tag_copy_of k d =
     (is_tag d \<and>
      (case (jget k ''id'', jget d ''id'') of
         (Some (JStr kid), Some (JStr did)) \<Rightarrow> kid = generate_id did
       | _ \<Rightarrow> False) \<and>
      jget d ''name'' = jget k ''name'' \<and>
      jget d ''creationDate'' = jget k ''creationDate'' \<and>
      jget d ''children'' = None \<and>
      jget d ''showChildren'' = None)"

text \<open>
  The duplication law as the specification words it: the tag shares the id of \<open>k\<close> as
  well.
\<close>

definition same_id_tag_of :: "json \<Rightarrow> json \<Rightarrow> bool" where
  "same_id_tag_of k d =
     (is_tag d \<and>
      jget d ''id'' = jget k ''id'' \<and>
      jget d ''name'' = jget k ''name'' \<and>
      jget d ''creationDate'' = jget k ''creationDate'' \<and>
      jget d ''children'' = None \<and>
      jget d ''showChildren'' = None)"

text \<open>
  \<open>dup_law R ks\<close>: every category in the list \<open>ks\<close> is followed immediately by a node
  related to it by \<open>R\<close>.
\<close>

definition dup_law :: "(json \<Rightarrow> json \<Rightarrow> bool) \<Rightarrow> json list \<Rightarrow> bool" where
  "dup_law R ks =
     (\<forall>i < length ks. is_category (ks ! i) \<longrightarrow> Suc i < length ks \<and> R (ks ! i) (ks ! Suc i))"




subsection \<open>The graph\<close>

definition narrower_rel :: "graph \<Rightarrow> (rdf_term \<times> rdf_term) set" where
  "narrower_rel g = {(s, ob). (s, SKOS_narrower, ob) \<in> set g}"

text \<open>A chain of narrower edges, as the list of the subjects on it.\<close>

fun narrower_path :: "graph \<Rightarrow> rdf_term list \<Rightarrow> bool" where
  "narrower_path g [] = True"
| "narrower_path g [c] = True"
| "narrower_path g (a # b # p) = ((a, SKOS_narrower, b) \<in> set g \<and> narrower_path g (b # p))"

text \<open>The subjects reached from the scheme by one top-concept edge and then narrower edges.\<close>

definition top_reach :: "graph \<Rightarrow> rdf_term \<Rightarrow> rdf_term set" where
  "top_reach g scheme =
     {c. \<exists>c0. (scheme, SKOS_hasTopConcept, c0) \<in> set g \<and> (c0, c) \<in> (narrower_rel g)\<^sup>*}"

text \<open>The graph without the triples whose subject lies outside a set.\<close>

definition only_subjects :: "rdf_term set \<Rightarrow> graph \<Rightarrow> graph" where
  "only_subjects S g = filter (\<lambda>(s, p, ob). s \<in> S) g"


definition literal_labels :: "graph \<Rightarrow> bool" where
  "literal_labels g = (\<forall>(s, p, ob) \<in> set g. p = SKOS_prefLabel \<longrightarrow> is_literal ob)"

text \<open>
  \<open>node_of clk g c k\<close>: \<open>k\<close> is what \<^verbatim>\<open>concept_to_json\<close> returns for the subject \<open>c\<close>;
  \<open>tag_of clk g c k\<close>: \<open>k\<close> is the tag the loops build for \<open>c\<close>.
\<close>

definition node_of :: "clock \<Rightarrow> graph \<Rightarrow> rdf_term \<Rightarrow> json \<Rightarrow> bool" where
  "node_of clk g c k = (\<exists>limit t t'. concept_to_json clk limit g c t = Inr (k, t'))"

definition tag_of :: "clock \<Rightarrow> graph \<Rightarrow> rdf_term \<Rightarrow> json \<Rightarrow> bool" where
  "tag_of clk g c k =
     (\<exists>name t. get_pref_label_fr g c = Inr name \<and>
        k = fst (create_tag clk (py_str c) name (get_creation_date g c) t))"

subsection \<open>A thesaurus\<close>

text \<open>
  A scheme titled Thesaurus with the top concept Animals (French label Animaux), which has
  the narrower concepts Dog and Mammals; Mammals has the narrower concept Cat, which has no
  label. Orphan belongs to the scheme through \<^verbatim>\<open>skos:inScheme\<close> only.
\<close>

definition SKOS_inScheme :: rdf_term where "SKOS_inScheme = URIRef (SKOS @ ''inScheme'')"

definition ex_scheme :: rdf_term where "ex_scheme = URIRef ''http://e/s''"
definition ex_animals :: rdf_term where "ex_animals = URIRef ''http://e/animals''"
definition ex_dog :: rdf_term where "ex_dog = URIRef ''http://e/dog''"
definition ex_mammals :: rdf_term where "ex_mammals = URIRef ''http://e/mammals''"
definition ex_cat :: rdf_term where "ex_cat = URIRef ''http://e/cat''"
definition ex_orphan :: rdf_term where "ex_orphan = URIRef ''http://e/orphan''"

definition ex_graph :: graph where
  "ex_graph =
     [(ex_scheme, RDF_type, SKOS_ConceptScheme),
      (ex_scheme, DC_title, Literal ''Thesaurus'' None None),
      (ex_scheme, SKOS_hasTopConcept, ex_animals),
      (ex_animals, SKOS_prefLabel, Literal ''Animals'' (Some ''en'') None),
      (ex_animals, SKOS_prefLabel, Literal ''Animaux'' (Some ''fr-fr'') None),
      (ex_animals, SKOS_narrower, ex_dog),
      (ex_animals, SKOS_narrower, ex_mammals),
      (ex_dog, SKOS_prefLabel, Literal ''Dog'' None None),
      (ex_mammals, SKOS_prefLabel, Literal ''Mammals'' None None),
      (ex_mammals, DCT_created, Literal ''2020-01-01'' None None),
      (ex_mammals, SKOS_narrower, ex_cat),
      (ex_orphan, SKOS_inScheme, ex_scheme),
      (ex_orphan, SKOS_prefLabel, Literal ''Orphan'' None None)]"

text \<open>The nodes of its conversion, with the clock reading \<open>0, 1, 2, \<dots>\<close>.\<close>

definition ex_dog_tag :: json where
  "ex_dog_tag =
     JDict [(''type'', JStr ''tag''), (''id'', JStr ''http://e/dog''), (''name'', JStr ''Dog''),
            (''creationDate'', JNull), (''creationTimestamp'', JInt 0)]"

definition ex_cat_tag :: json where
  "ex_cat_tag =
     JDict [(''type'', JStr ''tag''), (''id'', JStr ''http://e/cat''), (''name'', JStr ''None''),
            (''creationDate'', JNull), (''creationTimestamp'', JInt 1)]"

definition ex_mammals_node :: json where
  "ex_mammals_node =
     JDict [(''type'', JStr ''category''), (''id'', JStr (generate_id ''http://e/mammals'')),
            (''name'', JStr ''Mammals''), (''children'', JList [ex_cat_tag]),
            (''creationDate'', JStr ''2020-01-01''), (''creationTimestamp'', JInt 2),
            (''showChildren'', JBool True)]"

definition ex_mammals_tag :: json where
  "ex_mammals_tag =
     JDict [(''type'', JStr ''tag''), (''id'', JStr ''http://e/mammals''),
            (''name'', JStr ''Mammals''), (''creationDate'', JStr ''2020-01-01''),
            (''creationTimestamp'', JInt 3)]"

definition ex_animals_node :: json where
  "ex_animals_node =
     JDict [(''type'', JStr ''category''), (''id'', JStr (generate_id ''http://e/animals'')),
            (''name'', JStr ''Animaux''),
            (''children'', JList [ex_dog_tag, ex_mammals_node, ex_mammals_tag]),
            (''creationDate'', JNull), (''creationTimestamp'', JInt 4),
            (''showChildren'', JBool True)]"

definition ex_animals_tag :: json where
  "ex_animals_tag =
     JDict [(''type'', JStr ''tag''), (''id'', JStr ''http://e/animals''),
            (''name'', JStr ''Animaux''), (''creationDate'', JNull),
            (''creationTimestamp'', JInt 5)]"

definition ex_root :: json where
  "ex_root =
     JDict [(''type'', JStr ''category''), (''id'', JStr ''http://e/s''),
            (''name'', JStr ''Thesaurus''),
            (''children'', JList [ex_animals_node, ex_animals_tag]),
            (''creationDate'', JNull), (''creationTimestamp'', JInt 6),
            (''showChildren'', JBool True)]"

definition ex_rank :: "rdf_term \<Rightarrow> nat" where
  "ex_rank c = (if c = ex_animals then 2 else if c = ex_mammals then 1 else 0)"

text \<open>A graph with concepts and labels but no concept scheme.\<close>

definition ex_schemeless :: graph where
  "ex_schemeless =
     [(ex_animals, SKOS_prefLabel, Literal ''Animaux'' (Some ''fr-fr'') None),
      (ex_animals, SKOS_narrower, ex_dog)]"





section \<open>Basic facts\<close>

lemma length_uuid_str: "length (uuid_str i) = 36"
  by (simp add: uuid_str_def Let_def)

lemma length_generate_id: "length (generate_id uri) = 36"
  by (simp add: generate_id_def length_uuid_str)

lemma generate_id_not_inj: "\<not> inj generate_id"
proof
  assume inj: "inj generate_id"
  have "range generate_id \<subseteq> {s. set s \<subseteq> UNIV \<and> length s = 36}"
    by (auto simp: length_generate_id)
  then have "finite (range generate_id)"
    by (rule finite_subset) (rule finite_lists_length_eq, simp)
  from finite_imageD [OF this inj] show False by (simp add: infinite_UNIV_listI)
qed

subsection \<open>Evaluating \<open>generate_id\<close>\<close>

text \<open>
  Equations without \<open>let\<close>, so that the simplifier computes each intermediate list before
  it is used, and one value computed with them: the id of the URI \<^verbatim>\<open>http://e/animals\<close>.
\<close>

lemma expand_numeral:
  "expand (numeral n) w =
     expand (pred_numeral n)
       (w @ [rotl 1 (w ! (length w - 3) XOR w ! (length w - 8) XOR w ! (length w - 14)
                     XOR w ! (length w - 16))])"
  by (simp add: numeral_eq_Suc Let_def)

lemma chunks_numeral:
  "chunks (numeral n) (x # xs) =
     take (numeral n) (x # xs) # chunks (numeral n) (drop (pred_numeral n) xs)"
  "chunks (numeral n) [] = []"
  by (simp_all add: numeral_eq_Suc)

lemma replicate_num: "replicate (numeral k) x = x # replicate (pred_numeral k) x"
  by (simp add: numeral_eq_Suc)

lemma sha1_block_eval:
  "sha1_block (h0, h1, h2, h3, h4) blk =
     (case foldl sha1_round (h0, h1, h2, h3, h4)
             (zip [0..<80] (expand 64 (map be32 (chunks 4 blk)))) of
        (a, b, c, d, e) \<Rightarrow> (h0 + a, h1 + b, h2 + c, h3 + d, h4 + e))"
  by (simp add: Let_def)

lemma sha1_eval:
  "sha1 m =
     (case foldl sha1_block (0x67452301, 0xEFCDAB89, 0x98BADCFE, 0x10325476, 0xC3D2E1F0)
             (chunks 64 (sha1_pad m)) of
        (h0, h1, h2, h3, h4) \<Rightarrow> concat (map (\<lambda>h. be_bytes 4 (ucast h)) [h0, h1, h2, h3, h4]))"
  by (simp add: sha1_def Let_def)

lemmas sha_eval = sha1_eval sha1_block_eval sha1_pad_def bytes_utf8_def be_bytes_def
  NAMESPACE_URL_def upt_rec chunks_numeral be32_def replicate_num expand_numeral rotl_def
  sha1_f_def sha1_k_def

lemma sha1_example:
  "sha1 (NAMESPACE_URL @ bytes_utf8 ''http://e/animals'') =
     [0x8b, 0xe8, 0x91, 0x90, 0x5f, 0xc7, 0xea, 0x02, 0x96, 0xed,
      0xf2, 0xe7, 0x28, 0x18, 0xd1, 0xef, 0x03, 0xaa, 0xb1, 0x5a]"
  by (simp add: sha_eval del: sha1_block.simps)

lemma uuid5_example:
  "uuid5 NAMESPACE_URL ''http://e/animals'' = 0x8be891905fc75a0296edf2e72818d1ef"
  by (simp add: uuid5_def sha1_example be128_def)

lemma generate_id_example:
  "generate_id ''http://e/animals'' = ''8be89190-5fc7-5a02-96ed-f2e72818d1ef''"
  by (simp add: generate_id_def uuid5_example uuid_str_def hex_digit_def upt_rec)

subsection \<open>Queries and tags\<close>

lemma set_objects: "ob \<in> set (objects g s p) \<longleftrightarrow> (s, p, ob) \<in> set g"
  by (force simp: objects_def)

lemma set_subjects: "s \<in> set (subjects g p ob) \<longleftrightarrow> (s, p, ob) \<in> set g"
  by (force simp: subjects_def)

lemma create_tag_fields:
  "jget (fst (create_tag clk uri name cd t)) ''type'' = Some (JStr ''tag'')"
  "jget (fst (create_tag clk uri name cd t)) ''id'' = Some (JStr uri)"
  "jget (fst (create_tag clk uri name cd t)) ''name'' = Some (JStr name)"
  "jget (fst (create_tag clk uri name cd t)) ''creationDate'' = Some (jopt cd)"
  "jget (fst (create_tag clk uri name cd t)) ''creationTimestamp'' = Some (JInt (clk t))"
  "jget (fst (create_tag clk uri name cd t)) ''children'' = None"
  "jget (fst (create_tag clk uri name cd t)) ''showChildren'' = None"
  "snd (create_tag clk uri name cd t) = Suc t"
  by (simp_all add: create_tag_def)

lemma tag_not_category: "is_tag d \<Longrightarrow> \<not> is_category d"
  by (auto simp: is_tag_def is_category_def)

subsection \<open>One call of \<^verbatim>\<open>concept_to_json\<close>, one round of its loop\<close>

lemma concept_to_json_Suc:
  "concept_to_json clk (Suc limit) g c t =
     (case get_pref_label_fr g c of
        Inl e \<Rightarrow> Inl e
      | Inr name \<Rightarrow>
          if has_children g c
          then (case narrower_loop clk limit g (objects g c SKOS_narrower) [] t of
                  Inl e \<Rightarrow> Inl e
                | Inr (children, t') \<Rightarrow>
                    Inr (JDict [(''type'', JStr ''category''),
                                (''id'', JStr (generate_id (py_str c))),
                                (''name'', JStr name),
                                (''children'', JList children),
                                (''creationDate'', jopt (get_creation_date g c)),
                                (''creationTimestamp'', JInt (clk t')),
                                (''showChildren'', JBool True)],
                         Suc t'))
          else Inr (create_tag clk (py_str c) name (get_creation_date g c) t))"
  by (simp add: Let_def)

lemma concept_to_json_cases:
  assumes "concept_to_json clk limit g c t = Inr (k, t')"
  obtains (leaf) n name where "limit = Suc n" "get_pref_label_fr g c = Inr name"
      "\<not> has_children g c"
      "k = fst (create_tag clk (py_str c) name (get_creation_date g c) t)"
  | (branch) n name children t1 where "limit = Suc n" "get_pref_label_fr g c = Inr name"
      "has_children g c"
      "narrower_loop clk n g (objects g c SKOS_narrower) [] t = Inr (children, t1)"
      "k = JDict [(''type'', JStr ''category''),
                  (''id'', JStr (generate_id (py_str c))),
                  (''name'', JStr name),
                  (''children'', JList children),
                  (''creationDate'', jopt (get_creation_date g c)),
                  (''creationTimestamp'', JInt (clk t1)),
                  (''showChildren'', JBool True)]"
      "t' = Suc t1"
proof (cases limit)
  case 0
  with assms show ?thesis by simp
next
  case (Suc n)
  with assms show ?thesis
    by (auto simp: concept_to_json_Suc create_tag_def simp del: concept_to_json.simps
        split: sum.splits if_splits prod.splits intro: leaf branch)
qed

lemma narrower_loop_Cons_Inl:
  "concept_to_json clk n g c t = Inl e \<Longrightarrow> narrower_loop clk n g (c # cs) acc t = Inl e"
  by simp

lemma narrower_loop_Cons_plain:
  "concept_to_json clk n g c t = Inr (k, u) \<Longrightarrow> \<not> is_category k \<Longrightarrow>
   narrower_loop clk n g (c # cs) acc t = narrower_loop clk n g cs (acc @ [k]) u"
  by (simp add: is_category_def)

lemma narrower_loop_Cons_category:
  "concept_to_json clk n g c t = Inr (k, u) \<Longrightarrow> is_category k \<Longrightarrow>
   narrower_loop clk n g (c # cs) acc t =
     (case get_pref_label_fr g c of
        Inl e \<Rightarrow> Inl e
      | Inr name \<Rightarrow>
          narrower_loop clk n g cs
            (acc @ [k, fst (create_tag clk (py_str c) name (get_creation_date g c) u)]) (Suc u))"
  by (simp add: is_category_def create_tag_def split: sum.splits)

lemma top_concept_loop_eq:
  "top_concept_loop clk limit g cs acc t = narrower_loop clk limit g cs acc t"
  by (induction cs arbitrary: acc t) (auto split: sum.splits prod.splits)

declare concept_to_json.simps(2) [simp del] narrower_loop.simps(2) [simp del]

lemma rdf_to_json_cases:
  assumes "rdf_to_json clk limit g t = Inr (out, t')"
  obtains scheme others children t1 where
    "subjects g RDF_type SKOS_ConceptScheme = scheme # others"
    "narrower_loop clk limit g (objects g scheme SKOS_hasTopConcept) [] t = Inr (children, t1)"
    "out = JList [JDict [(''type'', JStr ''category''),
                         (''id'', JStr (py_str scheme)),
                         (''name'', JStr (str_opt (graph_value g scheme DC_title))),
                         (''children'', JList children),
                         (''creationDate'', jopt (get_creation_date g scheme)),
                         (''creationTimestamp'', JInt (clk t1)),
                         (''showChildren'', JBool True)]]"
    "t' = Suc t1"
  using assms
  by (auto simp: rdf_to_json_def Let_def top_concept_loop_eq split: list.splits sum.splits)

subsection \<open>The list a loop builds\<close>

lemma dup_law_Nil: "dup_law R []"
  by (simp add: dup_law_def)

lemma dup_law_snoc:
  assumes "dup_law R ks" "\<not> is_category k"
  shows "dup_law R (ks @ [k])"
  unfolding dup_law_def
proof (intro allI impI)
  fix i assume i: "i < length (ks @ [k])" and c: "is_category ((ks @ [k]) ! i)"
  from i c assms(2) have "i < length ks" by (cases "i = length ks") auto
  with c assms(1) show "Suc i < length (ks @ [k]) \<and> R ((ks @ [k]) ! i) ((ks @ [k]) ! Suc i)"
    by (auto simp: dup_law_def nth_append)
qed

lemma dup_law_snoc2:
  assumes "dup_law R ks" "R k d" "\<not> is_category d"
  shows "dup_law R (ks @ [k, d])"
  unfolding dup_law_def
proof (intro allI impI)
  fix i assume i: "i < length (ks @ [k, d])" and c: "is_category ((ks @ [k, d]) ! i)"
  consider "i < length ks" | "i = length ks" | "i = Suc (length ks)" using i by force
  then show "Suc i < length (ks @ [k, d]) \<and> R ((ks @ [k, d]) ! i) ((ks @ [k, d]) ! Suc i)"
  proof cases
    case 1
    with c assms(1) show ?thesis by (auto simp: dup_law_def nth_append)
  next
    case 2
    with assms(2) show ?thesis by (simp add: nth_append)
  next
    case 3
    with c assms(3) show ?thesis by (simp add: nth_append)
  qed
qed

lemma category_node_tag_copy:
  assumes "concept_to_json clk limit g c t = Inr (k, t1)" "is_category k"
    "get_pref_label_fr g c = Inr name"
  shows "tag_copy_of k (fst (create_tag clk (py_str c) name (get_creation_date g c) t2))"
  using assms(1)
proof (cases rule: concept_to_json_cases)
  case (leaf n name')
  with assms(2) show ?thesis
    by (simp add: is_category_def create_tag_fields)
next
  case (branch n name' children t1')
  with assms(3) show ?thesis
    by (simp add: tag_copy_of_def is_tag_def create_tag_fields)
qed

lemma narrower_loop_dup_law:
  "narrower_loop clk n g cs acc t = Inr (res, t') \<Longrightarrow> dup_law tag_copy_of acc \<Longrightarrow>
   dup_law tag_copy_of res"
proof (induction cs arbitrary: acc t)
  case Nil
  then show ?case by simp
next
  case (Cons c cs)
  from Cons.prems(1) obtain k t1 where k: "concept_to_json clk n g c t = Inr (k, t1)"
    by (cases "concept_to_json clk n g c t") (auto simp: narrower_loop_Cons_Inl)
  show ?case
  proof (cases "is_category k")
    case True
    with Cons.prems(1) k obtain name where
      name: "get_pref_label_fr g c = Inr name"
      by (cases "get_pref_label_fr g c") (auto simp: narrower_loop_Cons_category)
    let ?d = "fst (create_tag clk (py_str c) name (get_creation_date g c) t1)"
    have copy: "tag_copy_of k ?d" by (rule category_node_tag_copy [OF k True name])
    then have "\<not> is_category ?d" by (simp add: tag_copy_of_def tag_not_category)
    with copy Cons.prems(2) have "dup_law tag_copy_of (acc @ [k, ?d])"
      by (simp add: dup_law_snoc2)
    moreover from Cons.prems(1) name
    have "narrower_loop clk n g cs (acc @ [k, ?d]) (Suc t1) = Inr (res, t')"
      by (simp add: narrower_loop_Cons_category [OF k True])
    ultimately show ?thesis by (rule Cons.IH [rotated])
  next
    case False
    with Cons.prems(2) have "dup_law tag_copy_of (acc @ [k])" by (simp add: dup_law_snoc)
    moreover from Cons.prems(1)
    have "narrower_loop clk n g cs (acc @ [k]) t1 = Inr (res, t')"
      by (simp add: narrower_loop_Cons_plain [OF k False])
    ultimately show ?thesis by (rule Cons.IH [rotated])
  qed
qed

lemma narrower_loop_elems:
  "narrower_loop clk n g cs acc t = Inr (res, t') \<Longrightarrow> k \<in> set res \<Longrightarrow>
   k \<in> set acc \<or> (\<exists>c \<in> set cs. node_of clk g c k \<or> tag_of clk g c k)"
proof (induction cs arbitrary: acc t)
  case Nil
  then show ?case by simp
next
  case (Cons c cs)
  from Cons.prems(1) obtain k1 t1 where k1: "concept_to_json clk n g c t = Inr (k1, t1)"
    by (cases "concept_to_json clk n g c t") (auto simp: narrower_loop_Cons_Inl)
  then have node: "node_of clk g c k1" by (auto simp: node_of_def)
  show ?case
  proof (cases "is_category k1")
    case True
    with Cons.prems(1) k1 obtain name where
      name: "get_pref_label_fr g c = Inr name"
      by (cases "get_pref_label_fr g c") (auto simp: narrower_loop_Cons_category)
    let ?d = "fst (create_tag clk (py_str c) name (get_creation_date g c) t1)"
    have tag: "tag_of clk g c ?d" using name by (auto simp: tag_of_def)
    from Cons.prems(1) name
    have "narrower_loop clk n g cs (acc @ [k1, ?d]) (Suc t1) = Inr (res, t')"
      by (simp add: narrower_loop_Cons_category [OF k1 True])
    from Cons.IH [OF this Cons.prems(2)] node tag show ?thesis by auto
  next
    case False
    with Cons.prems(1)
    have "narrower_loop clk n g cs (acc @ [k1]) t1 = Inr (res, t')"
      by (simp add: narrower_loop_Cons_plain [OF k1 False])
    from Cons.IH [OF this Cons.prems(2)] node show ?thesis by auto
  qed
qed

lemma narrower_loop_error:
  "narrower_loop clk n g cs acc t = Inl e \<Longrightarrow>
   \<exists>c \<in> set cs. (\<exists>t1. concept_to_json clk n g c t1 = Inl e) \<or> get_pref_label_fr g c = Inl e"
proof (induction cs arbitrary: acc t)
  case Nil
  then show ?case by simp
next
  case (Cons c cs)
  show ?case
  proof (cases "concept_to_json clk n g c t")
    case (Inl e')
    with Cons.prems show ?thesis by (auto simp: narrower_loop_Cons_Inl)
  next
    case (Inr r)
    obtain k u where r: "concept_to_json clk n g c t = Inr (k, u)" using Inr by (cases r) simp
    show ?thesis
    proof (cases "is_category k")
      case True
      show ?thesis
      proof (cases "get_pref_label_fr g c")
        case (Inl e')
        with Cons.prems show ?thesis by (simp add: narrower_loop_Cons_category [OF r True])
      next
        case (Inr name)
        with Cons.prems Cons.IH show ?thesis
          by (auto simp: narrower_loop_Cons_category [OF r True])
      qed
    next
      case False
      with Cons.prems Cons.IH show ?thesis
        by (auto simp: narrower_loop_Cons_plain [OF r False])
    qed
  qed
qed

subsection \<open>Where the nodes of the tree come from\<close>

lemma children_of_tag: "tag_of clk g c k \<Longrightarrow> children_of k = []"
  by (auto simp: tag_of_def children_of_def create_tag_fields)

lemma children_of_node:
  assumes "node_of clk g c k" "k' \<in> set (children_of k)"
  shows "\<exists>c'. (c, c') \<in> narrower_rel g \<and> (node_of clk g c' k' \<or> tag_of clk g c' k')"
proof -
  from assms(1) obtain limit t t' where "concept_to_json clk limit g c t = Inr (k, t')"
    by (auto simp: node_of_def)
  then show ?thesis
  proof (cases rule: concept_to_json_cases)
    case (leaf n name)
    with assms(2) show ?thesis by (simp add: children_of_def create_tag_fields)
  next
    case (branch n name children t1)
    from branch(5) assms(2) have "k' \<in> set children" by (simp add: children_of_def)
    from narrower_loop_elems [OF branch(4) this]
    show ?thesis by (auto simp: set_objects narrower_rel_def)
  qed
qed

lemma top_reach_top: "(scheme, SKOS_hasTopConcept, c) \<in> set g \<Longrightarrow> c \<in> top_reach g scheme"
  by (auto simp: top_reach_def)

lemma top_reach_narrower:
  "c \<in> top_reach g scheme \<Longrightarrow> (c, c') \<in> narrower_rel g \<Longrightarrow> c' \<in> top_reach g scheme"
  by (auto simp: top_reach_def intro: rtrancl_into_rtrancl)

lemma root_provenance:
  assumes "rdf_to_json clk limit g t = Inr (JList [root], t')"
    "subjects g RDF_type SKOS_ConceptScheme = scheme # others"
    "k \<in> below root"
  shows "\<exists>c \<in> top_reach g scheme. node_of clk g c k \<or> tag_of clk g c k"
  using assms(1)
proof (cases rule: rdf_to_json_cases)
  case (1 scheme' others' children t1)
  with assms(2) have [simp]: "scheme' = scheme" by simp
  from assms(3) show ?thesis
  proof (induction rule: below.induct)
    case (child k0)
    with 1(3) have "k0 \<in> set children" by (simp add: children_of_def)
    from narrower_loop_elems [OF 1(2) this] obtain c0 where
      "(scheme, SKOS_hasTopConcept, c0) \<in> set g" "node_of clk g c0 k0 \<or> tag_of clk g c0 k0"
      by (auto simp: set_objects)
    then show ?case by (blast intro: top_reach_top)
  next
    case (deeper m k0)
    then obtain c where c: "c \<in> top_reach g scheme" "node_of clk g c m \<or> tag_of clk g c m"
      by blast
    with deeper(2) obtain c' where "(c, c') \<in> narrower_rel g"
      "node_of clk g c' k0 \<or> tag_of clk g c' k0"
      using children_of_node [of clk g c m k0] children_of_tag [of clk g c m] by auto
    with c(1) show ?case by (blast intro: top_reach_narrower)
  qed
qed

lemma node_of_dup_law: "node_of clk g c k \<Longrightarrow> dup_law tag_copy_of (children_of k)"
proof -
  assume "node_of clk g c k"
  then obtain limit t t' where "concept_to_json clk limit g c t = Inr (k, t')"
    by (auto simp: node_of_def)
  then show ?thesis
  proof (cases rule: concept_to_json_cases)
    case (leaf n name)
    then show ?thesis by (simp add: children_of_def create_tag_fields dup_law_Nil)
  next
    case (branch n name children t1)
    from narrower_loop_dup_law [OF branch(4) dup_law_Nil] branch(5)
    show ?thesis by (simp add: children_of_def)
  qed
qed

lemma node_of_id:
  assumes "node_of clk g c k"
  shows "is_category k \<and> jget k ''id'' = Some (JStr (generate_id (py_str c))) \<or>
         is_tag k \<and> jget k ''id'' = Some (JStr (py_str c))"
proof -
  from assms obtain limit t t' where "concept_to_json clk limit g c t = Inr (k, t')"
    by (auto simp: node_of_def)
  then show ?thesis
  proof (cases rule: concept_to_json_cases)
    case (leaf n name)
    then show ?thesis by (simp add: is_tag_def create_tag_fields)
  next
    case (branch n name children t1)
    then show ?thesis by (simp add: is_category_def)
  qed
qed

lemma tag_of_id: "tag_of clk g c k \<Longrightarrow> is_tag k \<and> jget k ''id'' = Some (JStr (py_str c))"
  by (auto simp: tag_of_def is_tag_def create_tag_fields)

subsection \<open>Blanking the clock readings\<close>













subsection \<open>Errors and the depth of the recursion\<close>

lemma first_fr_error:
  "first_fr ls = Inl e \<Longrightarrow> e = AttributeError \<and> (\<exists>l \<in> set ls. \<not> is_literal l)"
  by (induction ls) (auto split: if_splits)

lemma first_fr_literals:
  assumes "\<forall>l \<in> set ls. is_literal l"
  shows "first_fr ls = Inr (map_option py_str (find (\<lambda>l. language l = Some ''fr-fr'') ls))"
  using assms by (induction ls) auto

lemma first_fr_result:
  "first_fr ls = Inr r \<Longrightarrow> r = map_option py_str (find (\<lambda>l. language l = Some ''fr-fr'') ls)"
  by (induction ls) (auto split: if_splits)

lemma literal_label_resolves:
  assumes "list_all is_literal (objects g c SKOS_prefLabel)"
  shows "\<exists>name. get_pref_label_fr g c = Inr name"
proof -
  from assms have "\<forall>l \<in> set (objects g c SKOS_prefLabel). is_literal l"
    by (simp add: list_all_iff)
  from first_fr_literals [OF this] show ?thesis
    by (simp add: get_pref_label_fr_def split: option.splits)
qed

lemma get_pref_label_fr_error:
  "get_pref_label_fr g c = Inl e \<Longrightarrow>
   e = AttributeError \<and> (\<exists>l. (c, SKOS_prefLabel, l) \<in> set g \<and> \<not> is_literal l)"
  by (auto simp: get_pref_label_fr_def set_objects split: sum.splits option.splits
      dest!: first_fr_error)

lemma literal_labels_ok: "literal_labels g \<Longrightarrow> \<exists>name. get_pref_label_fr g c = Inr name"
proof (cases "get_pref_label_fr g c")
  case (Inl e)
  assume "literal_labels g"
  with get_pref_label_fr_error [OF Inl] show ?thesis by (auto simp: literal_labels_def)
qed simp

lemma concept_to_json_error:
  "concept_to_json clk (Suc n) g c t = Inl e \<Longrightarrow>
   get_pref_label_fr g c = Inl e \<or>
   (\<exists>c' t1. (c, SKOS_narrower, c') \<in> set g \<and>
      (concept_to_json clk n g c' t1 = Inl e \<or> get_pref_label_fr g c' = Inl e))"
  by (auto simp: concept_to_json_Suc set_objects split: sum.splits if_splits
      dest!: narrower_loop_error)

lemma recursion_error_path:
  "concept_to_json clk n g c t = Inl RecursionError \<Longrightarrow>
   \<exists>p. narrower_path g (c # p) \<and> n < length (c # p)"
proof (induction n arbitrary: c t)
  case 0
  have "narrower_path g (c # []) \<and> 0 < length (c # [])" by simp
  then show ?case by blast
next
  case (Suc n)
  from concept_to_json_error [OF Suc.prems] get_pref_label_fr_error
  obtain c' t1 where c': "(c, SKOS_narrower, c') \<in> set g"
    "concept_to_json clk n g c' t1 = Inl RecursionError"
    by (metis error.distinct(5))
  from Suc.IH [OF c'(2)] obtain p where "narrower_path g (c' # p)" "n < length (c' # p)" by blast
  with c'(1) have "narrower_path g (c # c' # p) \<and> Suc n < length (c # c' # p)" by simp
  then show ?case by blast
qed

lemma only_recursion_error:
  assumes "literal_labels g"
  shows "concept_to_json clk n g c t = Inl e \<Longrightarrow> e = RecursionError"
proof (induction n arbitrary: c t)
  case 0
  then show ?case by simp
next
  case (Suc n)
  from concept_to_json_error [OF Suc.prems] literal_labels_ok [OF assms]
  obtain c' t1 where "concept_to_json clk n g c' t1 = Inl e"
    by (metis Inl_Inr_False)
  then show ?case by (rule Suc.IH)
qed

lemma narrower_loop_hits:
  assumes lit: "literal_labels g"
    and hit: "\<And>t. concept_to_json clk n g c1 t = Inl RecursionError"
  shows "c1 \<in> set cs \<Longrightarrow> narrower_loop clk n g cs acc t = Inl RecursionError"
proof (induction cs arbitrary: acc t)
  case Nil
  then show ?case by simp
next
  case (Cons c cs)
  show ?case
  proof (cases "concept_to_json clk n g c t")
    case (Inl e)
    with only_recursion_error [OF lit Inl] show ?thesis by (simp add: narrower_loop_Cons_Inl)
  next
    case (Inr r)
    obtain k u where r: "concept_to_json clk n g c t = Inr (k, u)" using Inr by (cases r) simp
    with hit [of t] have "c \<noteq> c1" by auto
    with Cons.prems have mem: "c1 \<in> set cs" by simp
    show ?thesis
    proof (cases "is_category k")
      case True
      from literal_labels_ok [OF lit, of c] obtain name where "get_pref_label_fr g c = Inr name" ..
      with Cons.IH [OF mem] show ?thesis by (simp add: narrower_loop_Cons_category [OF r True])
    next
      case False
      with Cons.IH [OF mem] show ?thesis by (simp add: narrower_loop_Cons_plain [OF r False])
    qed
  qed
qed

lemma path_recursion_error:
  assumes lit: "literal_labels g"
  shows "narrower_path g (c # p) \<Longrightarrow> n < length (c # p) \<Longrightarrow>
         concept_to_json clk n g c t = Inl RecursionError"
proof (induction n arbitrary: c p t)
  case 0
  then show ?case by simp
next
  case (Suc n)
  from Suc.prems(2) obtain c1 p' where p: "p = c1 # p'" by (cases p) auto
  with Suc.prems have edge: "(c, SKOS_narrower, c1) \<in> set g" and
    path: "narrower_path g (c1 # p')" and len: "n < length (c1 # p')" by auto
  from Suc.IH [OF path len] have hit: "\<And>t. concept_to_json clk n g c1 t = Inl RecursionError" .
  from edge have mem: "c1 \<in> set (objects g c SKOS_narrower)" by (simp add: set_objects)
  then have ch: "has_children g c" by (auto simp: has_children_def)
  from literal_labels_ok [OF lit, of c] obtain name where "get_pref_label_fr g c = Inr name" ..
  with ch narrower_loop_hits [OF lit hit mem] show ?case
    by (simp add: concept_to_json_Suc)
qed

lemma narrower_path_trancl:
  "narrower_path g (a # p) \<Longrightarrow> x \<in> set p \<Longrightarrow> (a, x) \<in> (narrower_rel g)\<^sup>+"
proof (induction p arbitrary: a)
  case Nil
  then show ?case by simp
next
  case (Cons b p)
  then have ab: "(a, b) \<in> narrower_rel g" and path: "narrower_path g (b # p)"
    by (auto simp: narrower_rel_def)
  show ?case
  proof (cases "x = b")
    case True
    with ab show ?thesis by blast
  next
    case False
    with Cons.prems have "x \<in> set p" by simp
    from Cons.IH [OF path this] ab show ?thesis by (meson trancl_into_trancl2)
  qed
qed

lemma narrower_path_distinct:
  assumes "acyclic (narrower_rel g)"
  shows "narrower_path g p \<Longrightarrow> distinct p"
proof (induction p)
  case Nil
  then show ?case by simp
next
  case (Cons a p)
  have "narrower_path g p" using Cons.prems by (cases p) auto
  with Cons.IH have "distinct p" .
  moreover have "a \<notin> set p"
  proof
    assume "a \<in> set p"
    from narrower_path_trancl [OF Cons.prems this] assms show False
      by (auto simp: acyclic_def)
  qed
  ultimately show ?case by simp
qed

lemma narrower_path_tail_objects:
  "narrower_path g (a # p) \<Longrightarrow> set p \<subseteq> (\<lambda>(s, p, ob). ob) ` set g"
proof (induction p arbitrary: a)
  case Nil
  then show ?case by simp
next
  case (Cons b p)
  then have "(a, SKOS_narrower, b) \<in> set g" "narrower_path g (b # p)" by auto
  with Cons.IH show ?case by force
qed

lemma narrower_path_bound:
  assumes "acyclic (narrower_rel g)" "narrower_path g (c # p)"
  shows "length (c # p) \<le> Suc (length g)"
proof -
  from narrower_path_distinct [OF assms] have "distinct p" by simp
  then have "length p = card (set p)" by (simp add: distinct_card)
  also have "\<dots> \<le> card ((\<lambda>(s, p, ob). ob) ` set g)"
    by (rule card_mono) (simp_all add: narrower_path_tail_objects [OF assms(2)])
  also have "\<dots> \<le> card (set g)" by (rule card_image_le) simp
  also have "\<dots> \<le> length g" by (rule card_length)
  finally show ?thesis by simp
qed

lemma acyclic_by_rank:
  fixes rank :: "rdf_term \<Rightarrow> nat"
  assumes "\<And>s ob. (s, SKOS_narrower, ob) \<in> set g \<Longrightarrow> rank ob < rank s"
  shows "acyclic (narrower_rel g)"
  by (rule acyclicI_order [where f = rank]) (auto simp: narrower_rel_def assms)

lemma valid_graph_converts:
  assumes scheme: "subjects g RDF_type SKOS_ConceptScheme \<noteq> []"
    and lit: "literal_labels g" and acyc: "acyclic (narrower_rel g)" and lim: "length g < limit"
  shows "\<exists>out t'. rdf_to_json clk limit g t = Inr (out, t')"
proof -
  from scheme obtain s others where s: "subjects g RDF_type SKOS_ConceptScheme = s # others"
    by (cases "subjects g RDF_type SKOS_ConceptScheme") auto
  have "narrower_loop clk limit g (objects g s SKOS_hasTopConcept) [] t \<noteq> Inl e" for e
  proof
    assume "narrower_loop clk limit g (objects g s SKOS_hasTopConcept) [] t = Inl e"
    from narrower_loop_error [OF this] literal_labels_ok [OF lit]
    obtain c t1 where c: "concept_to_json clk limit g c t1 = Inl e" by (metis Inl_Inr_False)
    with only_recursion_error [OF lit c]
    have "concept_to_json clk limit g c t1 = Inl RecursionError" by simp
    from recursion_error_path [OF this] obtain p where
      "narrower_path g (c # p)" "limit < length (c # p)" by blast
    with narrower_path_bound [OF acyc, of c p] lim show False by simp
  qed
  then obtain ks t1 where
    "narrower_loop clk limit g (objects g s SKOS_hasTopConcept) [] t = Inr (ks, t1)"
    by (cases "narrower_loop clk limit g (objects g s SKOS_hasTopConcept) [] t") auto
  with s show ?thesis by (simp add: rdf_to_json_def top_concept_loop_eq)
qed

subsection \<open>The triples a conversion reads\<close>

lemma objects_only_subjects: "s \<in> S \<Longrightarrow> objects (only_subjects S g) s p = objects g s p"
proof -
  assume s: "s \<in> S"
  have "filter (\<lambda>(s', p', ob). s' = s \<and> p' = p) (filter (\<lambda>(s', p', ob). s' \<in> S) g) =
        filter (\<lambda>(s', p', ob). s' = s \<and> p' = p) g"
    unfolding filter_filter by (rule filter_cong) (use s in auto)
  then show ?thesis by (simp add: objects_def only_subjects_def)
qed

lemma queries_only_subjects:
  assumes "s \<in> S"
  shows "get_pref_label_fr (only_subjects S g) s = get_pref_label_fr g s"
    and "get_creation_date (only_subjects S g) s = get_creation_date g s"
    and "has_children (only_subjects S g) s = has_children g s"
    and "graph_value (only_subjects S g) s p = graph_value g s p"
  unfolding get_pref_label_fr_def get_creation_date_def has_children_def graph_value_def
    objects_only_subjects [OF assms]
  by (rule refl)+

lemma narrower_loop_only_subjects:
  assumes IH: "\<And>c t. c \<in> R \<Longrightarrow>
      concept_to_json clk n (only_subjects S g) c t = concept_to_json clk n g c t"
    and sub: "R \<subseteq> S"
  shows "set cs \<subseteq> R \<Longrightarrow>
         narrower_loop clk n (only_subjects S g) cs acc t = narrower_loop clk n g cs acc t"
proof (induction cs arbitrary: acc t)
  case Nil
  then show ?case by simp
next
  case (Cons c cs)
  then have c: "c \<in> R" and cs: "set cs \<subseteq> R" by simp_all
  from c sub have cS: "c \<in> S" by blast
  note same = IH [OF c, of t]
  show ?case
  proof (cases "concept_to_json clk n g c t")
    case (Inl e)
    with same show ?thesis by (simp add: narrower_loop_Cons_Inl)
  next
    case (Inr r)
    obtain k u where r: "concept_to_json clk n g c t = Inr (k, u)" using Inr by (cases r) simp
    with same have r': "concept_to_json clk n (only_subjects S g) c t = Inr (k, u)" by simp
    show ?thesis
    proof (cases "is_category k")
      case True
      show ?thesis
        unfolding narrower_loop_Cons_category [OF r True]
          narrower_loop_Cons_category [OF r' True] queries_only_subjects [OF cS]
          Cons.IH [OF cs] ..
    next
      case False
      show ?thesis
        by (simp add: narrower_loop_Cons_plain [OF r False]
            narrower_loop_Cons_plain [OF r' False] Cons.IH [OF cs])
    qed
  qed
qed

lemma concept_to_json_only_subjects:
  assumes closed: "\<And>c c'. c \<in> R \<Longrightarrow> (c, SKOS_narrower, c') \<in> set g \<Longrightarrow> c' \<in> R"
    and sub: "R \<subseteq> S"
  shows "c \<in> R \<Longrightarrow>
         concept_to_json clk n (only_subjects S g) c t = concept_to_json clk n g c t"
proof (induction n arbitrary: c t)
  case 0
  then show ?case by simp
next
  case (Suc n)
  from Suc.prems sub have cS: "c \<in> S" by blast
  from Suc.prems closed have "set (objects g c SKOS_narrower) \<subseteq> R"
    by (auto simp: set_objects)
  from narrower_loop_only_subjects [of R clk n S g, OF Suc.IH sub this]
  have loop: "narrower_loop clk n (only_subjects S g) (objects g c SKOS_narrower) [] t =
              narrower_loop clk n g (objects g c SKOS_narrower) [] t" .
  show ?case
    unfolding concept_to_json_Suc queries_only_subjects [OF cS] objects_only_subjects [OF cS]
      loop ..
qed

lemma subjects_only_subjects:
  "subjects g p ob = s # rest \<Longrightarrow> s \<in> S \<Longrightarrow>
   \<exists>rest'. subjects (only_subjects S g) p ob = s # rest'"
proof (induction g)
  case Nil
  then show ?case by (simp add: subjects_def)
next
  case (Cons x g)
  obtain s' p' ob' where x: "x = (s', p', ob')" by (cases x) auto
  show ?case
  proof (cases "p' = p \<and> ob' = ob")
    case True
    with Cons.prems x have "s' = s" by (simp add: subjects_def)
    with True x Cons.prems(2) show ?thesis by (simp add: subjects_def only_subjects_def)
  next
    case False
    with Cons.prems x have "subjects g p ob = s # rest" by (auto simp: subjects_def)
    from Cons.IH [OF this Cons.prems(2)] False x show ?thesis
      by (auto simp: subjects_def only_subjects_def)
  qed
qed

lemma rdf_to_json_only_reachable:
  assumes "subjects g RDF_type SKOS_ConceptScheme = scheme # others"
  shows "rdf_to_json clk limit (only_subjects (insert scheme (top_reach g scheme)) g) t =
         rdf_to_json clk limit g t"
proof -
  let ?R = "top_reach g scheme"
  let ?S = "insert scheme ?R"
  let ?g = "only_subjects ?S g"
  have closed: "c' \<in> ?R" if "c \<in> ?R" "(c, SKOS_narrower, c') \<in> set g" for c c'
    using that by (auto simp: narrower_rel_def intro: top_reach_narrower)
  have sub: "?R \<subseteq> ?S" by blast
  have s: "scheme \<in> ?S" by simp
  from subjects_only_subjects [OF assms s] obtain others' where
    s': "subjects ?g RDF_type SKOS_ConceptScheme = scheme # others'" ..
  have tops: "set (objects g scheme SKOS_hasTopConcept) \<subseteq> ?R"
    by (auto simp: set_objects intro: top_reach_top)
  have conv: "concept_to_json clk limit ?g c t' = concept_to_json clk limit g c t'"
    if "c \<in> ?R" for c t'
    using closed sub that by (rule concept_to_json_only_subjects)
  have loop: "narrower_loop clk limit ?g (objects g scheme SKOS_hasTopConcept) [] t =
              narrower_loop clk limit g (objects g scheme SKOS_hasTopConcept) [] t"
    using conv sub tops by (rule narrower_loop_only_subjects)
  show ?thesis
    unfolding rdf_to_json_def assms s' top_concept_loop_eq list.case
      queries_only_subjects [OF s] objects_only_subjects [OF s] loop ..
qed

subsection \<open>Parsing\<close>



subsection \<open>The thesaurus, converted\<close>

lemmas vocab_defs =
  DC_title_def DCT_created_def SKOS_narrower_def SKOS_prefLabel_def SKOS_ConceptScheme_def
  SKOS_hasTopConcept_def SKOS_inScheme_def RDF_type_def DC_def DCT_def SKOS_def RDF_def

lemmas ex_defs =
  ex_graph_def ex_scheme_def ex_animals_def ex_dog_def ex_mammals_def ex_cat_def ex_orphan_def

lemmas ex_node_defs =
  ex_root_def ex_animals_node_def ex_animals_tag_def ex_mammals_node_def ex_mammals_tag_def
  ex_dog_tag_def ex_cat_tag_def

lemmas query_defs =
  objects_def subjects_def graph_value_def str_opt_def has_children_def
  get_pref_label_fr_def get_creation_date_def create_tag_def jopt_def
  concept_to_json.simps(2) narrower_loop.simps(2)

lemma ex_run: "rdf_to_json int 3 ex_graph 0 = Inr (JList [ex_root], 7)"
  by (simp add: numeral_eq_Suc rdf_to_json_def ex_defs ex_node_defs vocab_defs query_defs)

lemma ex_dog_run: "concept_to_json int 1 ex_graph ex_dog 0 = Inr (ex_dog_tag, 1)"
  by (simp add: ex_defs ex_node_defs vocab_defs query_defs)

lemma ex_scheme_subjects: "subjects ex_graph RDF_type SKOS_ConceptScheme = [ex_scheme]"
  by (simp add: ex_defs vocab_defs subjects_def)

lemma ex_children:
  "children_of ex_root = [ex_animals_node, ex_animals_tag]"
  "children_of ex_animals_node = [ex_dog_tag, ex_mammals_node, ex_mammals_tag]"
  "children_of ex_mammals_node = [ex_cat_tag]"
  by (simp_all add: children_of_def ex_root_def ex_animals_node_def ex_mammals_node_def)

lemma ex_literal_labels: "literal_labels ex_graph"
  by (simp add: literal_labels_def ex_defs vocab_defs)

lemma ex_acyclic: "acyclic (narrower_rel ex_graph)"
proof (rule acyclic_by_rank [where rank = ex_rank])
  fix s ob assume "(s, SKOS_narrower, ob) \<in> set ex_graph"
  then show "ex_rank ob < ex_rank s"
    by (auto simp: ex_defs vocab_defs ex_rank_def)
qed

lemma ex_top_reach:
  "top_reach ex_graph ex_scheme \<subseteq> {ex_animals, ex_dog, ex_mammals, ex_cat}"
proof
  fix c assume "c \<in> top_reach ex_graph ex_scheme"
  then obtain c0 where top: "(ex_scheme, SKOS_hasTopConcept, c0) \<in> set ex_graph"
    and reach: "(c0, c) \<in> (narrower_rel ex_graph)\<^sup>*"
    by (auto simp: top_reach_def)
  from top have c0: "c0 = ex_animals" by (auto simp: ex_defs vocab_defs)
  from reach show "c \<in> {ex_animals, ex_dog, ex_mammals, ex_cat}"
  proof (induction rule: rtrancl_induct)
    case base
    with c0 show ?case by simp
  next
    case (step y z)
    from step(2) have "z \<in> {ex_dog, ex_mammals, ex_cat}"
      by (auto simp: narrower_rel_def ex_defs vocab_defs)
    then show ?case by auto
  qed
qed

section \<open>The claims\<close>

subsection \<open>C1: the duplication law\<close>

text \<open>
  \<^bold>\<open>C1\<close>, as stated, asks the synthesized tag to share the id of the category it follows.
  In the thesaurus the root's children are the category Animaux and its tag: the category's
  id is \<open>generate_id\<close> of the URI, the tag's id is the URI itself, and the two differ.
\<close>

theorem duplication_shared_id_counterexample:
  "rdf_to_json int 3 ex_graph 0 = Inr (JList [ex_root], 7) \<and>
   children_of ex_root = [ex_animals_node, ex_animals_tag] \<and>
   is_category ex_animals_node \<and>
   jget ex_animals_node ''id'' = Some (JStr (generate_id ''http://e/animals'')) \<and>
   generate_id ''http://e/animals'' = ''8be89190-5fc7-5a02-96ed-f2e72818d1ef'' \<and>
   jget ex_animals_tag ''id'' = Some (JStr ''http://e/animals'') \<and>
   jget ex_animals_tag ''id'' \<noteq> jget ex_animals_node ''id'' \<and>
   \<not> dup_law same_id_tag_of (children_of ex_root)"
proof -
  have neq: "generate_id ''http://e/animals'' \<noteq> ''http://e/animals''"
    by (simp add: generate_id_example)
  have cat: "is_category ex_animals_node"
    by (simp add: is_category_def ex_animals_node_def)
  have kid: "jget ex_animals_node ''id'' = Some (JStr (generate_id ''http://e/animals''))"
    by (simp add: ex_animals_node_def)
  have did: "jget ex_animals_tag ''id'' = Some (JStr ''http://e/animals'')"
    by (simp add: ex_animals_tag_def)
  have "\<not> dup_law same_id_tag_of [ex_animals_node, ex_animals_tag]"
  proof
    assume "dup_law same_id_tag_of [ex_animals_node, ex_animals_tag]"
    with cat have "same_id_tag_of ex_animals_node ex_animals_tag"
      by (auto simp: dup_law_def)
    with kid did neq show False by (simp add: same_id_tag_of_def)
  qed
  with ex_run ex_children(1) cat kid did neq generate_id_example show ?thesis by simp
qed

text \<open>
  \<^bold>\<open>C1\<close>, amended. In the children of the root and of every node below it, each
  category is followed immediately by a tag that has the category's name and creation
  date, has neither \<^verbatim>\<open>children\<close> nor \<^verbatim>\<open>showChildren\<close>, and whose id is the subject's URI
  string, the category's own id being \<open>generate_id\<close> of that string. The rule is the same
  at the level of the top concepts and at every level below.
\<close>

theorem duplication_law:
  assumes "rdf_to_json clk limit g t = Inr (JList [root], t')"
    and "c = root \<or> c \<in> below root"
  shows "\<forall>i < length (children_of c). is_category (children_of c ! i) \<longrightarrow>
           Suc i < length (children_of c) \<and>
           tag_copy_of (children_of c ! i) (children_of c ! Suc i)"
proof -
  from assms(1) obtain scheme others children t1 where
    s: "subjects g RDF_type SKOS_ConceptScheme = scheme # others" and
    loop: "narrower_loop clk limit g (objects g scheme SKOS_hasTopConcept) [] t
             = Inr (children, t1)" and
    root: "children_of root = children"
    by (cases rule: rdf_to_json_cases) (simp add: children_of_def)
  have "dup_law tag_copy_of (children_of c)"
  proof (cases "c = root")
    case True
    with narrower_loop_dup_law [OF loop dup_law_Nil] root show ?thesis by simp
  next
    case False
    with assms(2) have "c \<in> below root" by simp
    from root_provenance [OF assms(1) s this] obtain s' where
      "node_of clk g s' c \<or> tag_of clk g s' c" by blast
    then show ?thesis
      by (auto simp: node_of_dup_law children_of_tag dup_law_Nil)
  qed
  then show ?thesis by (simp add: dup_law_def)
qed

theorem duplication_law_witness:
  "rdf_to_json int 3 ex_graph 0 = Inr (JList [ex_root], 7) \<and>
   ex_animals_node \<in> below ex_root \<and>
   children_of ex_animals_node = [ex_dog_tag, ex_mammals_node, ex_mammals_tag] \<and>
   is_category ex_mammals_node \<and>
   tag_copy_of ex_mammals_node ex_mammals_tag"
proof -
  have b: "ex_animals_node \<in> below ex_root"
    by (rule below.child) (simp add: ex_children)
  have c: "is_category ex_mammals_node"
    by (simp add: is_category_def ex_mammals_node_def)
  from duplication_law [OF ex_run, of ex_animals_node] b
  have "\<forall>i < length (children_of ex_animals_node).
          is_category (children_of ex_animals_node ! i) \<longrightarrow>
          Suc i < length (children_of ex_animals_node) \<and>
          tag_copy_of (children_of ex_animals_node ! i) (children_of ex_animals_node ! Suc i)"
    by simp
  from this [rule_format, of 1] c
  have "tag_copy_of ex_mammals_node ex_mammals_tag"
    by (simp add: ex_children)
  with ex_run b c ex_children(2) show ?thesis by simp
qed

subsection \<open>C2: identifiers\<close>

text \<open>
  \<^bold>\<open>C2\<close>, as stated, gives every node but the root the hashed id. The tag of the leaf
  Dog, a child of Animaux, carries the URI of its subject instead.
\<close>

theorem leaf_id_not_hashed_counterexample:
  "rdf_to_json int 3 ex_graph 0 = Inr (JList [ex_root], 7) \<and>
   ex_animals_node \<in> set (children_of ex_root) \<and>
   ex_dog_tag \<in> set (children_of ex_animals_node) \<and>
   concept_to_json int 1 ex_graph ex_dog 0 = Inr (ex_dog_tag, 1) \<and>
   jget ex_dog_tag ''id'' = Some (JStr (py_str ex_dog)) \<and>
   jget ex_dog_tag ''id'' \<noteq> Some (JStr (generate_id (py_str ex_dog)))"
proof -
  have neq: "generate_id ''http://e/dog'' \<noteq> ''http://e/dog''"
  proof
    assume "generate_id ''http://e/dog'' = ''http://e/dog''"
    then have "length (generate_id ''http://e/dog'') = length ''http://e/dog''"
      by (rule arg_cong)
    then show False by (simp add: length_generate_id)
  qed
  have "jget ex_dog_tag ''id'' = Some (JStr ''http://e/dog'')"
    by (simp add: ex_dog_tag_def)
  with neq ex_run ex_dog_run show ?thesis
    by (simp add: ex_children ex_dog_def)
qed

text \<open>
  \<^bold>\<open>C2\<close>, amended. The root's id is the scheme's URI string. Every node below the root
  is the node \<^verbatim>\<open>concept_to_json\<close> returns for, or the tag built for, a subject reached
  from the scheme, and its id comes from the URI string of that very subject: whatever
  \<^verbatim>\<open>concept_to_json\<close> returns for a subject is either a category whose id is
  \<open>generate_id\<close> (the version-5 UUID in the URL namespace) of the subject's URI string or
  a tag whose id is the URI string itself, and the tag built for a subject has the URI
  string as id. So the id is fixed by the node's type and the subject's URI; tags of
  subjects with distinct URIs have distinct ids, and categories have distinct ids as far
  as the hash does not collide.
\<close>

theorem node_ids:
  assumes "rdf_to_json clk limit g t = Inr (JList [root], t')"
    and "subjects g RDF_type SKOS_ConceptScheme = scheme # others"
  shows "jget root ''id'' = Some (JStr (py_str scheme)) \<and>
         (\<forall>k \<in> below root. \<exists>c \<in> top_reach g scheme.
            (node_of clk g c k \<or> tag_of clk g c k) \<and>
            (is_category k \<and> jget k ''id'' = Some (JStr (generate_id (py_str c))) \<or>
             is_tag k \<and> jget k ''id'' = Some (JStr (py_str c)))) \<and>
         (\<forall>c k. node_of clk g c k \<longrightarrow>
            is_category k \<and> jget k ''id'' = Some (JStr (generate_id (py_str c))) \<or>
            is_tag k \<and> jget k ''id'' = Some (JStr (py_str c))) \<and>
         (\<forall>c k. tag_of clk g c k \<longrightarrow>
            is_tag k \<and> jget k ''id'' = Some (JStr (py_str c))) \<and>
         (\<forall>c c' k k'. (node_of clk g c k \<or> tag_of clk g c k) \<and>
            (node_of clk g c' k' \<or> tag_of clk g c' k') \<and>
            is_tag k \<and> is_tag k' \<and> py_str c \<noteq> py_str c' \<longrightarrow>
            jget k ''id'' \<noteq> jget k' ''id'')"
proof (intro conjI)
  from assms show "jget root ''id'' = Some (JStr (py_str scheme))"
    by (cases rule: rdf_to_json_cases) simp
  have built: "is_category k \<and> jget k ''id'' = Some (JStr (generate_id (py_str c))) \<or>
      is_tag k \<and> jget k ''id'' = Some (JStr (py_str c))"
    if "node_of clk g c k \<or> tag_of clk g c k" for c k
    using that node_of_id [of clk g c k] tag_of_id [of clk g c k] by blast
  show "\<forall>k \<in> below root. \<exists>c \<in> top_reach g scheme.
            (node_of clk g c k \<or> tag_of clk g c k) \<and>
            (is_category k \<and> jget k ''id'' = Some (JStr (generate_id (py_str c))) \<or>
             is_tag k \<and> jget k ''id'' = Some (JStr (py_str c)))"
  proof
    fix k assume "k \<in> below root"
    from root_provenance [OF assms this] obtain c where
      c: "c \<in> top_reach g scheme" "node_of clk g c k \<or> tag_of clk g c k" by blast
    with built [OF c(2)] show "\<exists>c \<in> top_reach g scheme.
            (node_of clk g c k \<or> tag_of clk g c k) \<and>
            (is_category k \<and> jget k ''id'' = Some (JStr (generate_id (py_str c))) \<or>
             is_tag k \<and> jget k ''id'' = Some (JStr (py_str c)))" by blast
  qed
  show "\<forall>c k. node_of clk g c k \<longrightarrow>
            is_category k \<and> jget k ''id'' = Some (JStr (generate_id (py_str c))) \<or>
            is_tag k \<and> jget k ''id'' = Some (JStr (py_str c))"
    using node_of_id by blast
  show "\<forall>c k. tag_of clk g c k \<longrightarrow>
            is_tag k \<and> jget k ''id'' = Some (JStr (py_str c))"
    using tag_of_id by blast
  show "\<forall>c c' k k'. (node_of clk g c k \<or> tag_of clk g c k) \<and>
            (node_of clk g c' k' \<or> tag_of clk g c' k') \<and>
            is_tag k \<and> is_tag k' \<and> py_str c \<noteq> py_str c' \<longrightarrow>
            jget k ''id'' \<noteq> jget k' ''id''"
  proof (intro allI impI)
    fix c c' k k'
    assume a: "(node_of clk g c k \<or> tag_of clk g c k) \<and>
            (node_of clk g c' k' \<or> tag_of clk g c' k') \<and>
            is_tag k \<and> is_tag k' \<and> py_str c \<noteq> py_str c'"
    then have "jget k ''id'' = Some (JStr (py_str c))"
      using built [of c k] by (auto dest: tag_not_category)
    moreover from a have "jget k' ''id'' = Some (JStr (py_str c'))"
      using built [of c' k'] by (auto dest: tag_not_category)
    ultimately show "jget k ''id'' \<noteq> jget k' ''id''" using a by simp
  qed
qed

theorem node_ids_witness:
  "rdf_to_json int 3 ex_graph 0 = Inr (JList [ex_root], 7) \<and>
   subjects ex_graph RDF_type SKOS_ConceptScheme = [ex_scheme] \<and>
   ex_animals_node \<in> below ex_root \<and>
   jget ex_root ''id'' = Some (JStr (py_str ex_scheme)) \<and>
   (\<exists>c \<in> top_reach ex_graph ex_scheme.
      (node_of int ex_graph c ex_animals_node \<or> tag_of int ex_graph c ex_animals_node) \<and>
      (is_category ex_animals_node \<and>
         jget ex_animals_node ''id'' = Some (JStr (generate_id (py_str c))) \<or>
       is_tag ex_animals_node \<and> jget ex_animals_node ''id'' = Some (JStr (py_str c)))) \<and>
   node_of int ex_graph ex_dog ex_dog_tag \<and>
   is_tag ex_dog_tag \<and> jget ex_dog_tag ''id'' = Some (JStr (py_str ex_dog))"
proof -
  have b: "ex_animals_node \<in> below ex_root"
    by (rule below.child) (simp add: ex_children)
  have n: "node_of int ex_graph ex_dog ex_dog_tag"
    unfolding node_of_def using ex_dog_run by blast
  have nc: "\<not> is_category ex_dog_tag"
    by (simp add: is_category_def ex_dog_tag_def)
  note inst = node_ids [OF ex_run ex_scheme_subjects]
  from inst b have "\<exists>c \<in> top_reach ex_graph ex_scheme.
      (node_of int ex_graph c ex_animals_node \<or> tag_of int ex_graph c ex_animals_node) \<and>
      (is_category ex_animals_node \<and>
         jget ex_animals_node ''id'' = Some (JStr (generate_id (py_str c))) \<or>
       is_tag ex_animals_node \<and> jget ex_animals_node ''id'' = Some (JStr (py_str c)))"
    by blast
  moreover from inst n nc
  have "is_tag ex_dog_tag \<and> jget ex_dog_tag ''id'' = Some (JStr (py_str ex_dog))"
    by blast
  moreover from inst have "jget ex_root ''id'' = Some (JStr (py_str ex_scheme))" by blast
  ultimately show ?thesis using ex_run ex_scheme_subjects b n by blast
qed

subsection \<open>C3: a concept without a label\<close>

text \<open>
  \<^bold>\<open>C3\<close>, as stated, makes the conversion fail at a concept that has no label. Cat has
  none; the conversion of the thesaurus succeeds and the node of Cat is named \<^verbatim>\<open>None\<close>.
\<close>

theorem unlabelled_concept_counterexample:
  "objects ex_graph ex_cat SKOS_prefLabel = [] \<and>
   get_pref_label_fr ex_graph ex_cat = Inr ''None'' \<and>
   rdf_to_json int 3 ex_graph 0 = Inr (JList [ex_root], 7) \<and>
   ex_mammals_node \<in> set (children_of ex_animals_node) \<and>
   ex_cat_tag \<in> set (children_of ex_mammals_node) \<and>
   jget ex_cat_tag ''id'' = Some (JStr (py_str ex_cat)) \<and>
   jget ex_cat_tag ''name'' = Some (JStr ''None'')"
proof -
  have "objects ex_graph ex_cat SKOS_prefLabel = []"
    by (simp add: ex_defs vocab_defs objects_def)
  moreover from this have "get_pref_label_fr ex_graph ex_cat = Inr ''None''"
    by (simp add: get_pref_label_fr_def graph_value_def str_opt_def)
  moreover have "jget ex_cat_tag ''id'' = Some (JStr (py_str ex_cat))"
    "jget ex_cat_tag ''name'' = Some (JStr ''None'')"
    by (simp_all add: ex_cat_tag_def ex_cat_def)
  ultimately show ?thesis using ex_run by (simp add: ex_children)
qed

text \<open>
  \<^bold>\<open>C3\<close>, amended. For a concept without any preferred label the label lookup does not
  fail: it returns the string \<^verbatim>\<open>None\<close>, every node \<^verbatim>\<open>concept_to_json\<close> returns for the
  concept carries that name, and for a concept without narrower concepts the call returns
  the tag named \<^verbatim>\<open>None\<close>. The code has no error for a missing label.
\<close>

theorem unlabelled_concept_named_None:
  assumes "objects g concept SKOS_prefLabel = []"
  shows "get_pref_label_fr g concept = Inr ''None'' \<and>
         (\<forall>k t'. concept_to_json clk limit g concept t = Inr (k, t') \<longrightarrow>
            jget k ''name'' = Some (JStr ''None'')) \<and>
         (objects g concept SKOS_narrower = [] \<longrightarrow>
            concept_to_json clk (Suc limit) g concept t =
              Inr (create_tag clk (py_str concept) ''None'' (get_creation_date g concept) t))"
proof -
  from assms have lab: "get_pref_label_fr g concept = Inr ''None''"
    by (simp add: get_pref_label_fr_def graph_value_def str_opt_def)
  have "jget k ''name'' = Some (JStr ''None'')"
    if "concept_to_json clk limit g concept t = Inr (k, t')" for k t'
    using that
  proof (cases rule: concept_to_json_cases)
    case (leaf n name)
    with lab show ?thesis by (simp add: create_tag_fields)
  next
    case (branch n name children t1)
    with lab show ?thesis by simp
  qed
  with lab show ?thesis by (simp add: has_children_def concept_to_json_Suc)
qed

theorem unlabelled_concept_named_None_witness:
  "objects ex_graph ex_cat SKOS_prefLabel = [] \<and>
   objects ex_graph ex_cat SKOS_narrower = [] \<and>
   get_pref_label_fr ex_graph ex_cat = Inr ''None'' \<and>
   concept_to_json int (Suc 0) ex_graph ex_cat 1 =
     Inr (create_tag int (py_str ex_cat) ''None'' (get_creation_date ex_graph ex_cat) 1)"
proof -
  have h: "objects ex_graph ex_cat SKOS_prefLabel = []"
    by (simp add: ex_defs vocab_defs objects_def)
  have n: "objects ex_graph ex_cat SKOS_narrower = []"
    by (simp add: ex_defs vocab_defs objects_def)
  from unlabelled_concept_named_None [OF h, of int 0 1] h n show ?thesis by simp
qed

subsection \<open>C4: the label of a concept\<close>

text \<open>
  \<^bold>\<open>C4\<close>. Whenever a name is resolved for a concept: if one of the concept's preferred
  labels is tagged \<^verbatim>\<open>fr-fr\<close>, the name is the text of an \<^verbatim>\<open>fr-fr\<close> label (the first in
  the store's order); if the concept has labels but none tagged \<^verbatim>\<open>fr-fr\<close>, the name is
  the text of one of them, the one the lookup without language preference returns. A name
  is resolved whenever the labels are literals (\<^verbatim>\<open>label.language\<close> exists on literals
  only).
\<close>

theorem label_fallback:
  "(list_all is_literal (objects g concept SKOS_prefLabel) \<longrightarrow>
      (\<exists>name. get_pref_label_fr g concept = Inr name)) \<and>
   (\<forall>name. get_pref_label_fr g concept = Inr name \<longrightarrow>
      ((\<exists>l \<in> set (objects g concept SKOS_prefLabel). language l = Some ''fr-fr'') \<longrightarrow>
         (\<exists>l \<in> set (objects g concept SKOS_prefLabel). language l = Some ''fr-fr'' \<and>
            find (\<lambda>l. language l = Some ''fr-fr'') (objects g concept SKOS_prefLabel) = Some l \<and>
            name = py_str l)) \<and>
      (objects g concept SKOS_prefLabel \<noteq> [] \<and>
       (\<forall>l \<in> set (objects g concept SKOS_prefLabel). language l \<noteq> Some ''fr-fr'') \<longrightarrow>
         (\<exists>l \<in> set (objects g concept SKOS_prefLabel).
            graph_value g concept SKOS_prefLabel = Some l \<and> name = py_str l)))"
proof (intro conjI allI impI)
  assume "list_all is_literal (objects g concept SKOS_prefLabel)"
  then show "\<exists>name. get_pref_label_fr g concept = Inr name"
    by (rule literal_label_resolves)
next
  let ?ls = "objects g concept SKOS_prefLabel"
  let ?fr = "\<lambda>l. language l = Some ''fr-fr''"
  fix name assume name: "get_pref_label_fr g concept = Inr name"
  then obtain r where r: "first_fr ?ls = Inr r"
    by (cases "first_fr ?ls") (auto simp: get_pref_label_fr_def)
  note found = first_fr_result [OF r]
  {
    assume "\<exists>l \<in> set ?ls. ?fr l"
    then obtain l where l: "find ?fr ?ls = Some l"
      by (cases "find ?fr ?ls") (auto simp: find_None_iff)
    then have "l \<in> set ?ls" "?fr l"
      by (auto simp: find_Some_iff)
    moreover from l found r name have "name = py_str l"
      by (simp add: get_pref_label_fr_def)
    ultimately show "\<exists>l \<in> set ?ls. ?fr l \<and> find ?fr ?ls = Some l \<and> name = py_str l"
      using l by blast
  next
    assume a: "?ls \<noteq> [] \<and> (\<forall>l \<in> set ?ls. language l \<noteq> Some ''fr-fr'')"
    then obtain l rest where ls: "?ls = l # rest" by (cases ?ls) auto
    from a have "find ?fr ?ls = None" by (simp add: find_None_iff)
    with found r name ls have "name = py_str l"
      by (simp add: get_pref_label_fr_def graph_value_def str_opt_def)
    moreover from ls have "graph_value g concept SKOS_prefLabel = Some l"
      by (simp add: graph_value_def)
    moreover from ls have "l \<in> set ?ls" by simp
    ultimately show "\<exists>l \<in> set ?ls. graph_value g concept SKOS_prefLabel = Some l \<and>
        name = py_str l" by blast
  }
qed

theorem label_fallback_witness:
  "objects ex_graph ex_animals SKOS_prefLabel =
     [Literal ''Animals'' (Some ''en'') None, Literal ''Animaux'' (Some ''fr-fr'') None] \<and>
   get_pref_label_fr ex_graph ex_animals = Inr ''Animaux'' \<and>
   objects ex_graph ex_dog SKOS_prefLabel = [Literal ''Dog'' None None] \<and>
   get_pref_label_fr ex_graph ex_dog = Inr ''Dog''"
proof -
  have a: "objects ex_graph ex_animals SKOS_prefLabel =
     [Literal ''Animals'' (Some ''en'') None, Literal ''Animaux'' (Some ''fr-fr'') None]"
    by (simp add: ex_defs vocab_defs objects_def)
  have d: "objects ex_graph ex_dog SKOS_prefLabel = [Literal ''Dog'' None None]"
    by (simp add: ex_defs vocab_defs objects_def)
  from label_fallback [of ex_graph ex_animals] obtain name where
    "get_pref_label_fr ex_graph ex_animals = Inr name" by (auto simp: a)
  with label_fallback [of ex_graph ex_animals]
  have "get_pref_label_fr ex_graph ex_animals = Inr ''Animaux''"
    by (simp add: a)
  moreover from label_fallback [of ex_graph ex_dog] obtain name' where
    "get_pref_label_fr ex_graph ex_dog = Inr name'" by (auto simp: d)
  with label_fallback [of ex_graph ex_dog]
  have "get_pref_label_fr ex_graph ex_dog = Inr ''Dog''"
    by (simp add: d)
  ultimately show ?thesis using a d by simp
qed

subsection \<open>C5: no concept scheme\<close>

text \<open>
  \<^bold>\<open>C5\<close>. For a graph in which no subject has the type \<^verbatim>\<open>ConceptScheme\<close>, the
  conversion fails (with the \<^verbatim>\<open>IndexError\<close> of \<^verbatim>\<open>list(...)[0]\<close>, the code's form of the
  missing-scheme error); \<^verbatim>\<open>main\<close> receives the error, reports it, exits with status 1
  and leaves every file as it was.
\<close>

theorem missing_scheme_fails:
  assumes "\<forall>s. (s, RDF_type, SKOS_ConceptScheme) \<notin> set g"
  shows "rdf_to_json clk limit g t = Inl IndexError \<and>
         files (main clk limit g output w) = files w \<and>
         stdout (main clk limit g output w) = stdout w @ [Error_during_conversion IndexError] \<and>
         exit_status (main clk limit g output w) = Some 1"
proof -
  have "subjects g RDF_type SKOS_ConceptScheme = []"
  proof (cases "subjects g RDF_type SKOS_ConceptScheme")
    case (Cons s ss)
    then have "s \<in> set (subjects g RDF_type SKOS_ConceptScheme)" by simp
    with assms show ?thesis by (simp add: set_subjects)
  qed simp
  then have "rdf_to_json clk limit g t = Inl IndexError" for t
    by (simp add: rdf_to_json_def)
  then show ?thesis by (simp add: main_def)
qed

theorem missing_scheme_fails_witness:
  "subjects ex_schemeless RDF_type SKOS_ConceptScheme = [] \<and>
   rdf_to_json int 1000 ex_schemeless 0 = Inl IndexError \<and>
   files (main int 1000 ex_schemeless ''out.json''
            \<lparr>files = Map.empty, stdout = [], exit_status = None\<rparr>) ''out.json'' = None \<and>
   exit_status (main int 1000 ex_schemeless ''out.json''
            \<lparr>files = Map.empty, stdout = [], exit_status = None\<rparr>) = Some 1"
proof -
  have h: "\<forall>s. (s, RDF_type, SKOS_ConceptScheme) \<notin> set ex_schemeless"
    by (simp add: ex_schemeless_def ex_defs vocab_defs)
  have "subjects ex_schemeless RDF_type SKOS_ConceptScheme = []"
    by (simp add: ex_schemeless_def ex_defs vocab_defs subjects_def)
  with missing_scheme_fails [OF h, of int 1000 0 "''out.json''"
      "\<lparr>files = Map.empty, stdout = [], exit_status = None\<rparr>"]
  show ?thesis by simp
qed

subsection \<open>C6: the root\<close>

text \<open>
  \<^bold>\<open>C6\<close>. A graph that has a concept scheme, whose labels are literals, whose narrower
  relation is acyclic and which has fewer triples than the recursion limit is converted;
  and whenever the conversion returns, what it returns is a list of exactly one node, the
  root, of type \<^verbatim>\<open>category\<close> and with \<^verbatim>\<open>showChildren\<close> true.
\<close>

theorem root_invariant:
  "(subjects g RDF_type SKOS_ConceptScheme \<noteq> [] \<and> literal_labels g \<and>
    acyclic (narrower_rel g) \<and> length g < limit \<longrightarrow>
      (\<exists>out t'. rdf_to_json clk limit g t = Inr (out, t'))) \<and>
   (\<forall>out t'. rdf_to_json clk limit g t = Inr (out, t') \<longrightarrow>
      (\<exists>root. out = JList [root] \<and> jget root ''type'' = Some (JStr ''category'') \<and>
         jget root ''showChildren'' = Some (JBool True)))"
proof (intro conjI allI impI)
  assume "subjects g RDF_type SKOS_ConceptScheme \<noteq> [] \<and> literal_labels g \<and>
    acyclic (narrower_rel g) \<and> length g < limit"
  then show "\<exists>out t'. rdf_to_json clk limit g t = Inr (out, t')"
    by (simp add: valid_graph_converts)
next
  fix out t' assume "rdf_to_json clk limit g t = Inr (out, t')"
  then show "\<exists>root. out = JList [root] \<and> jget root ''type'' = Some (JStr ''category'') \<and>
         jget root ''showChildren'' = Some (JBool True)"
    by (cases rule: rdf_to_json_cases) simp
qed

theorem root_invariant_witness:
  "subjects ex_graph RDF_type SKOS_ConceptScheme \<noteq> [] \<and> literal_labels ex_graph \<and>
   acyclic (narrower_rel ex_graph) \<and> length ex_graph < 1000 \<and>
   (\<exists>root t'. rdf_to_json int 1000 ex_graph 0 = Inr (JList [root], t') \<and>
      jget root ''type'' = Some (JStr ''category'') \<and>
      jget root ''showChildren'' = Some (JBool True))"
proof -
  have v: "subjects ex_graph RDF_type SKOS_ConceptScheme \<noteq> [] \<and> literal_labels ex_graph \<and>
    acyclic (narrower_rel ex_graph) \<and> length ex_graph < 1000"
    by (simp add: ex_scheme_subjects ex_literal_labels ex_acyclic) (simp add: ex_graph_def)
  with root_invariant [of ex_graph 1000 int 0] show ?thesis by blast
qed

subsection \<open>C7: leaves\<close>

text \<open>
  \<^bold>\<open>C7\<close>. Take a concept that has no object under the narrower relation. Every node
  \<^verbatim>\<open>concept_to_json\<close> returns for it is of type \<^verbatim>\<open>tag\<close> and has neither the field
  \<^verbatim>\<open>children\<close> nor the field \<^verbatim>\<open>showChildren\<close>; and the call does return a node whenever
  the concept's labels are literals and one level of recursion is left.
\<close>

theorem leaf_is_plain_tag:
  assumes "objects g concept SKOS_narrower = []"
  shows "(list_all is_literal (objects g concept SKOS_prefLabel) \<longrightarrow>
            (\<exists>k t'. concept_to_json clk (Suc limit) g concept t = Inr (k, t'))) \<and>
         (\<forall>k t'. concept_to_json clk limit g concept t = Inr (k, t') \<longrightarrow>
            jget k ''type'' = Some (JStr ''tag'') \<and> jget k ''children'' = None \<and>
            jget k ''showChildren'' = None)"
proof (rule conjI)
  show "list_all is_literal (objects g concept SKOS_prefLabel) \<longrightarrow>
          (\<exists>k t'. concept_to_json clk (Suc limit) g concept t = Inr (k, t'))"
  proof
    assume "list_all is_literal (objects g concept SKOS_prefLabel)"
    from literal_label_resolves [OF this] obtain name where
      "get_pref_label_fr g concept = Inr name" ..
    with assms show "\<exists>k t'. concept_to_json clk (Suc limit) g concept t = Inr (k, t')"
      by (simp add: concept_to_json_Suc has_children_def create_tag_def)
  qed
  show "\<forall>k t'. concept_to_json clk limit g concept t = Inr (k, t') \<longrightarrow>
          jget k ''type'' = Some (JStr ''tag'') \<and> jget k ''children'' = None \<and>
          jget k ''showChildren'' = None"
  proof (intro allI impI)
    fix k t' assume "concept_to_json clk limit g concept t = Inr (k, t')"
    then show "jget k ''type'' = Some (JStr ''tag'') \<and> jget k ''children'' = None \<and>
            jget k ''showChildren'' = None"
    proof (cases rule: concept_to_json_cases)
      case (leaf n name)
      then show ?thesis by (simp add: create_tag_fields)
    next
      case (branch n name children t1)
      with assms show ?thesis by (simp add: has_children_def)
    qed
  qed
qed

theorem leaf_is_plain_tag_witness:
  "objects ex_graph ex_dog SKOS_narrower = [] \<and>
   concept_to_json int 1 ex_graph ex_dog 0 = Inr (ex_dog_tag, 1) \<and>
   jget ex_dog_tag ''type'' = Some (JStr ''tag'') \<and> jget ex_dog_tag ''children'' = None \<and>
   jget ex_dog_tag ''showChildren'' = None"
proof -
  have h: "objects ex_graph ex_dog SKOS_narrower = []"
    by (simp add: ex_defs vocab_defs objects_def)
  from leaf_is_plain_tag [OF h, of int 1 0] h ex_dog_run show ?thesis by simp
qed

subsection \<open>C8: two runs\<close>




subsection \<open>C9: the depth of the recursion\<close>

text \<open>
  \<^bold>\<open>C9\<close>. When the narrower relation of the graph is acyclic, the chains of narrower
  edges that start at a concept have a greatest length \<open>d\<close>, counted in subjects: the depth
  of the graph below the concept. \<^verbatim>\<open>concept_to_json\<close> never exceeds a recursion limit of
  \<open>d\<close> or more, so it returns without any guard against cycles; and when the labels are
  literals it does exceed every smaller limit, so its recursion is exactly \<open>d\<close> deep.
\<close>

theorem acyclic_recursion_depth:
  assumes "acyclic (narrower_rel g)"
  shows "\<exists>d. (\<exists>p. narrower_path g (concept # p) \<and> length (concept # p) = d) \<and>
             (\<forall>p. narrower_path g (concept # p) \<longrightarrow> length (concept # p) \<le> d) \<and>
             (\<forall>limit clk t. d \<le> limit \<longrightarrow>
                concept_to_json clk limit g concept t \<noteq> Inl RecursionError) \<and>
             (literal_labels g \<longrightarrow>
                (\<forall>limit clk t. limit < d \<longrightarrow>
                   concept_to_json clk limit g concept t = Inl RecursionError))"
proof -
  let ?P = "\<lambda>d. \<exists>p. narrower_path g (concept # p) \<and> length (concept # p) = d"
  have "?P 1" by (intro exI [of _ "[]"]) simp
  moreover have "\<forall>y. ?P y \<longrightarrow> y \<le> Suc (length g)"
    using narrower_path_bound [OF assms] by blast
  ultimately obtain d where d: "?P d" and max: "\<forall>y. ?P y \<longrightarrow> y \<le> d"
    using Nat.ex_has_greatest_nat [of ?P 1 "Suc (length g)"] by blast
  from d obtain p0 where p0: "narrower_path g (concept # p0)" "length (concept # p0) = d"
    by blast
  have upper: "\<forall>p. narrower_path g (concept # p) \<longrightarrow> length (concept # p) \<le> d"
    using max by blast
  have enough: "concept_to_json clk limit g concept t \<noteq> Inl RecursionError"
    if "d \<le> limit" for limit clk t
  proof
    assume "concept_to_json clk limit g concept t = Inl RecursionError"
    from recursion_error_path [OF this] obtain p where
      "narrower_path g (concept # p)" "limit < length (concept # p)" by blast
    with upper that show False by (meson leD le_trans)
  qed
  have short: "concept_to_json clk limit g concept t = Inl RecursionError"
    if "literal_labels g" "limit < d" for limit clk t
    using path_recursion_error [OF that(1) p0(1)] that(2) p0(2) by simp
  from d upper enough short show ?thesis by blast
qed

theorem acyclic_recursion_depth_witness:
  "acyclic (narrower_rel ex_graph) \<and> literal_labels ex_graph \<and>
   narrower_path ex_graph [ex_animals, ex_mammals, ex_cat] \<and>
   concept_to_json int 2 ex_graph ex_animals 0 = Inl RecursionError \<and>
   concept_to_json int 3 ex_graph ex_animals 0 = Inr (ex_animals_node, 5)"
proof -
  have path: "narrower_path ex_graph (ex_animals # [ex_mammals, ex_cat])"
    by (simp add: ex_defs vocab_defs)
  have run: "concept_to_json int 3 ex_graph ex_animals 0 = Inr (ex_animals_node, 5)"
    by (simp add: numeral_eq_Suc ex_defs ex_node_defs vocab_defs query_defs)
  from acyclic_recursion_depth [OF ex_acyclic, of ex_animals] obtain d where
    upper: "\<forall>p. narrower_path ex_graph (ex_animals # p) \<longrightarrow> length (ex_animals # p) \<le> d" and
    short: "literal_labels ex_graph \<longrightarrow>
      (\<forall>limit clk t. limit < d \<longrightarrow>
         concept_to_json clk limit ex_graph ex_animals t = Inl RecursionError)"
    by blast
  from upper path have "3 \<le> d" by fastforce
  with short ex_literal_labels
  have "concept_to_json int 2 ex_graph ex_animals 0 = Inl RecursionError" by simp
  with ex_acyclic ex_literal_labels path run show ?thesis by simp
qed

subsection \<open>C10: which subjects appear\<close>

text \<open>
  \<^bold>\<open>C10\<close>. Every node below the root is the node \<^verbatim>\<open>concept_to_json\<close> returns for, or
  the tag built for, a subject that is reached from the concept scheme by one
  \<^verbatim>\<open>hasTopConcept\<close> edge followed by narrower edges. A concept tied to the scheme by
  another relation only is not among these subjects and nothing of it appears: deleting
  from the graph every triple whose subject is neither the scheme nor reached from it
  leaves the result of the conversion as it is.
\<close>

theorem output_nodes_reachable:
  assumes "subjects g RDF_type SKOS_ConceptScheme = scheme # others"
  shows "(\<forall>root t'. rdf_to_json clk limit g t = Inr (JList [root], t') \<longrightarrow>
            (\<forall>k \<in> below root. \<exists>c \<in> top_reach g scheme.
               node_of clk g c k \<or> tag_of clk g c k)) \<and>
         rdf_to_json clk limit (only_subjects (insert scheme (top_reach g scheme)) g) t =
           rdf_to_json clk limit g t"
proof (rule conjI)
  show "\<forall>root t'. rdf_to_json clk limit g t = Inr (JList [root], t') \<longrightarrow>
          (\<forall>k \<in> below root. \<exists>c \<in> top_reach g scheme.
             node_of clk g c k \<or> tag_of clk g c k)"
    using root_provenance [OF _ assms] by blast
  show "rdf_to_json clk limit (only_subjects (insert scheme (top_reach g scheme)) g) t =
          rdf_to_json clk limit g t"
    using assms by (rule rdf_to_json_only_reachable)
qed

theorem output_nodes_reachable_witness:
  "subjects ex_graph RDF_type SKOS_ConceptScheme = [ex_scheme] \<and>
   rdf_to_json int 3 ex_graph 0 = Inr (JList [ex_root], 7) \<and>
   ex_cat_tag \<in> below ex_root \<and>
   (\<exists>c \<in> top_reach ex_graph ex_scheme.
      node_of int ex_graph c ex_cat_tag \<or> tag_of int ex_graph c ex_cat_tag) \<and>
   (ex_orphan, SKOS_inScheme, ex_scheme) \<in> set ex_graph \<and>
   ex_orphan \<notin> top_reach ex_graph ex_scheme \<and>
   rdf_to_json int 3
     (only_subjects (insert ex_scheme (top_reach ex_graph ex_scheme)) ex_graph) 0 =
     Inr (JList [ex_root], 7)"
proof -
  have "ex_animals_node \<in> below ex_root"
    by (rule below.child) (simp add: ex_children)
  then have "ex_mammals_node \<in> below ex_root"
    by (rule below.deeper) (simp add: ex_children)
  then have b: "ex_cat_tag \<in> below ex_root"
    by (rule below.deeper) (simp add: ex_children)
  have o: "ex_orphan \<notin> top_reach ex_graph ex_scheme"
    using ex_top_reach by (auto simp: ex_defs)
  have i: "(ex_orphan, SKOS_inScheme, ex_scheme) \<in> set ex_graph"
    by (simp add: ex_graph_def)
  note inst = output_nodes_reachable [OF ex_scheme_subjects, of int 3 0]
  from inst ex_run b have "\<exists>c \<in> top_reach ex_graph ex_scheme.
      node_of int ex_graph c ex_cat_tag \<or> tag_of int ex_graph c ex_cat_tag"
    by blast
  moreover from inst ex_run have "rdf_to_json int 3
     (only_subjects (insert ex_scheme (top_reach ex_graph ex_scheme)) ex_graph) 0 =
     Inr (JList [ex_root], 7)"
    by simp
  ultimately show ?thesis using ex_run ex_scheme_subjects b o i by simp
qed

end
